theory Spec2Isabelle
  imports Complex_Main
begin

section \<open>The World of the particle simulation (source/world.js)\<close>

text \<open>
  A JavaScript number is a double: a real with a significand of 53 bits, and every
  arithmetic operation of the source returns the exact result rounded to the nearest
  double, ties to even. The model has the doubles of every exponent from the
  subnormal ones upwards, so it has no Infinity and no NaN: a result beyond the
  largest double of the source is outside the model, and a division by zero, Infinity
  or NaN in the source, gives 0 here. The theorems about sizes assume a viewport of
  positive width and height, where no divisor is zero, and \<open>normalize\<close> tests the
  length before it divides.

  Objects live in a store and are named by references, so that the identity test
  \<^verbatim>\<open>point !== point2\<close> and in-place mutation are what they are in the source.
\<close>

type_synonym ref = nat

subsection \<open>Numbers\<close>

text \<open>
  The exponent of a real is that of its binade, not below that of the subnormal
  doubles; the unit in the last place of the binade is 52 binary places below.
\<close>

definition exponent :: "real \<Rightarrow> int" where
  "exponent x = max \<lfloor>log 2 \<bar>x\<bar>\<rfloor> (- 1022)"

definition ulp :: "real \<Rightarrow> real" where
  "ulp x = 2 powi (exponent x - 52)"

definition round_even :: "real \<Rightarrow> int" where
  "round_even y =
     (if y - of_int \<lfloor>y\<rfloor> < 1 / 2 then \<lfloor>y\<rfloor>
      else if 1 / 2 < y - of_int \<lfloor>y\<rfloor> then \<lfloor>y\<rfloor> + 1
      else if even \<lfloor>y\<rfloor> then \<lfloor>y\<rfloor> else \<lfloor>y\<rfloor> + 1)"

text \<open>The rounding: the nearest multiple of the unit in the last place.\<close>

definition fl :: "real \<Rightarrow> real" where
  "fl x = of_int (round_even (x / ulp x)) * ulp x"

definition doubles :: "real set" where
  "doubles = {x. \<exists>m k. x = of_int m * 2 powi k \<and> \<bar>m\<bar> < 2 ^ 53 \<and> - 1074 \<le> k}"

text \<open>The type of the numbers of the source: the reals that are doubles.\<close>

typedef double = doubles
  morphisms val Abs_double
proof -
  have "(0::real) = of_int 0 * 2 powi 0" by simp
  then show ?thesis unfolding doubles_def by fastforce
qed

text \<open>
  A number literal of the source, and the result of an operation: the real rounded.
  The operations are those of the source, \<^verbatim>\<open>+\<close>, \<^verbatim>\<open>-\<close>, \<^verbatim>\<open>*\<close>, \<^verbatim>\<open>/\<close>, unary \<^verbatim>\<open>-\<close> and
  \<^verbatim>\<open>Math.sqrt\<close>; a comparison of the source compares the values.
\<close>

definition dbl :: "real \<Rightarrow> double" where
  "dbl x = Abs_double (fl x)"

definition dadd :: "double \<Rightarrow> double \<Rightarrow> double" where
  "dadd a b = dbl (val a + val b)"

definition dsub :: "double \<Rightarrow> double \<Rightarrow> double" where
  "dsub a b = dbl (val a - val b)"

definition dmul :: "double \<Rightarrow> double \<Rightarrow> double" where
  "dmul a b = dbl (val a * val b)"

definition ddiv :: "double \<Rightarrow> double \<Rightarrow> double" where
  "ddiv a b = dbl (val a / val b)"

definition dneg :: "double \<Rightarrow> double" where
  "dneg a = dbl (- val a)"

definition dsqrt :: "double \<Rightarrow> double" where
  "dsqrt a = dbl (sqrt (val a))"

subsection \<open>The vec2 vector library\<close>

type_synonym vec2 = "double \<times> double"

text \<open>
  Modelled from the spec: the vec2 library (createFrom, create, add, subtract, scale,
  multiply, length, normalize) is not in world.js. The spec names the operations as
  vector construction, sum, difference, scaling by a number, elementwise product,
  Euclidean length and the unit vector of the same direction; the model computes each
  with the operations on doubles, one rounding for each, the length as the square
  root of the sum of the squares and the unit vector by division by the length. Each
  call of the source passes the vector that receives the result as last argument; the
  model returns the result and the caller stores it. The spec leaves the unit vector
  of the zero vector open; the model returns the zero vector there.
\<close>

definition vec2_createFrom :: "double \<Rightarrow> double \<Rightarrow> vec2" where
  "vec2_createFrom x y = (x, y)"

definition vec2_create :: "vec2" where
  "vec2_create = (dbl 0, dbl 0)"

definition vec2_add :: "vec2 \<Rightarrow> vec2 \<Rightarrow> vec2" where
  "vec2_add a b = (dadd (fst a) (fst b), dadd (snd a) (snd b))"

definition vec2_subtract :: "vec2 \<Rightarrow> vec2 \<Rightarrow> vec2" where
  "vec2_subtract a b = (dsub (fst a) (fst b), dsub (snd a) (snd b))"

definition vec2_scale :: "vec2 \<Rightarrow> double \<Rightarrow> vec2" where
  "vec2_scale a k = (dmul (fst a) k, dmul (snd a) k)"

definition vec2_multiply :: "vec2 \<Rightarrow> vec2 \<Rightarrow> vec2" where
  "vec2_multiply a b = (dmul (fst a) (fst b), dmul (snd a) (snd b))"

definition vec2_length :: "vec2 \<Rightarrow> double" where
  "vec2_length a = dsqrt (dadd (dmul (fst a) (fst a)) (dmul (snd a) (snd a)))"

definition vec2_normalize :: "vec2 \<Rightarrow> vec2" where
  "vec2_normalize a =
     (let mag = vec2_length a
      in if val mag > 0 then (ddiv (fst a) mag, ddiv (snd a) mag) else (dbl 0, dbl 0))"

subsection \<open>Objects and the store\<close>

text \<open>
  Modelled from the spec: the Point class is not in world.js. The World reads and writes
  three of its fields: the position \<open>current\<close>, the \<open>radius\<close> and the flag
  \<open>interactive\<close>. Each point owns its position vector.
\<close>

record point =
  current :: vec2
  radius :: double
  interactive :: bool

text \<open>
  The fields of a World object, as declared on \<^verbatim>\<open>World.prototype\<close>. The prototype
  holds \<^verbatim>\<open>null\<close> in each; the constructor writes all seven before it returns, so no
  World has a \<^verbatim>\<open>null\<close> field and the model has none. A name of the source that ends in
  an underscore is written with a prime after it, here and below.
\<close>

record world =
  width :: double
  height :: double
  gravity :: vec2
  points_' :: "ref list"
  constraints_' :: "ref list"
  scale_' :: vec2
  maxScale_' :: double

text \<open>
  The object literal handed to \<^verbatim>\<open>addPoint\<close> and \<^verbatim>\<open>addConstraint\<close>. The World touches one
  property of it, \<open>world\<close>; \<open>None\<close> is the property not being set.
\<close>

record options =
  world :: "ref option"

text \<open>The host's \<^verbatim>\<open>window\<close> object, of which the World reads the viewport size.\<close>

record window =
  innerWidth :: double
  innerHeight :: double

record heap =
  worlds :: "ref \<Rightarrow> world"
  points :: "ref \<Rightarrow> point"
  configs :: "ref \<Rightarrow> options"
  window :: window

text \<open>
  A write to a field of an object: the object at the reference is replaced by its
  update, every other object stays.
\<close>

definition world_upd :: "ref \<Rightarrow> (world \<Rightarrow> world) \<Rightarrow> heap \<Rightarrow> heap" where
  "world_upd r f h = h\<lparr>worlds := (worlds h)(r := f (worlds h r))\<rparr>"

definition point_upd :: "ref \<Rightarrow> (point \<Rightarrow> point) \<Rightarrow> heap \<Rightarrow> heap" where
  "point_upd r f h = h\<lparr>points := (points h)(r := f (points h r))\<rparr>"

definition config_upd :: "ref \<Rightarrow> (options \<Rightarrow> options) \<Rightarrow> heap \<Rightarrow> heap" where
  "config_upd r f h = h\<lparr>configs := (configs h)(r := f (configs h r))\<rparr>"

text \<open>
  What the World calls, in the order it calls it: \<open>satisfy\<close> of a constraint and
  \<open>move\<close> of a point with the time step, and its own \<open>collidePoints\<close> with two points.
  The functions that make such calls return the list of them beside the store; the
  list is not a value of the source.
\<close>

datatype call = Satisfy ref double | Move ref double | CollidePoints ref ref

datatype error = TypeError

subsection \<open>Constants\<close>

definition DT :: double where
  "DT = dbl 16"

definition MIN_DIMENSION :: double where
  "MIN_DIMENSION = dbl 10"

subsection \<open>Construction and sizing\<close>

text \<open>
  The assignments of \<^verbatim>\<open>setSize\<close> one after the other; \<open>maxScale_\<close> and \<open>scale_\<close> read
  back the width and height just written.
\<close>

definition setSize :: "ref \<Rightarrow> heap \<Rightarrow> heap" where
  "setSize this h =
     (let iw = innerWidth (window h);
          ih = innerHeight (window h);
          h3 = (if val iw > val ih then
                  let h1 = world_upd this
                             (\<lambda>w. w\<lparr>width := dmul MIN_DIMENSION (ddiv iw ih)\<rparr>) h;
                      h2 = world_upd this (\<lambda>w. w\<lparr>height := MIN_DIMENSION\<rparr>) h1
                  in world_upd this
                       (\<lambda>w. w\<lparr>maxScale_' := ddiv iw (width (worlds h2 this))\<rparr>) h2
                else
                  let h1 = world_upd this (\<lambda>w. w\<lparr>width := MIN_DIMENSION\<rparr>) h;
                      h2 = world_upd this
                             (\<lambda>w. w\<lparr>height := dmul MIN_DIMENSION (ddiv ih iw)\<rparr>) h1
                  in world_upd this
                       (\<lambda>w. w\<lparr>maxScale_' := ddiv ih (height (worlds h2 this))\<rparr>) h2)
      in world_upd this (\<lambda>w. w\<lparr>scale_' :=
           vec2_createFrom (ddiv iw (width (worlds h3 this)))
                           (ddiv ih (height (worlds h3 this)))\<rparr>) h3)"

text \<open>
  The constructor function, run on the fresh object \<open>this\<close> that \<^verbatim>\<open>new\<close> made. It
  declares no parameter and does not read \<^verbatim>\<open>arguments\<close>: whatever the caller passes,
  the list \<open>args\<close>, is dropped.
\<close>

definition World :: "ref \<Rightarrow> 'a list \<Rightarrow> heap \<Rightarrow> heap" where
  "World this args h =
     (let h1 = world_upd this (\<lambda>w. w\<lparr>gravity := vec2_createFrom (dbl 0) (dbl 0)\<rparr>) h;
          h2 = world_upd this (\<lambda>w. w\<lparr>points_' := []\<rparr>) h1;
          h3 = world_upd this (\<lambda>w. w\<lparr>constraints_' := []\<rparr>) h2
      in setSize this h3)"

subsection \<open>Registration\<close>

text \<open>
  The constructors \<^verbatim>\<open>Point\<close> and \<^verbatim>\<open>Constraint\<close> are not in world.js; they are parameters:
  a constructor takes the options object and the store, and returns the new object
  and the store it left.
\<close>

definition addPoint :: "(ref \<Rightarrow> heap \<Rightarrow> ref \<times> heap) \<Rightarrow> ref \<Rightarrow> ref \<Rightarrow> heap \<Rightarrow> ref \<times> heap" where
  "addPoint Point this opts h =
     (let h1 = config_upd opts (\<lambda>c. c\<lparr>world := Some this\<rparr>) h;
          (point, h2) = Point opts h1;
          h3 = world_upd this (\<lambda>w. w\<lparr>points_' := points_' w @ [point]\<rparr>) h2
      in (point, h3))"

definition addConstraint :: "(ref \<Rightarrow> heap \<Rightarrow> ref \<times> heap) \<Rightarrow> ref \<Rightarrow> ref \<Rightarrow> heap \<Rightarrow> ref \<times> heap" where
  "addConstraint Constraint this opts h =
     (let h1 = config_upd opts (\<lambda>c. c\<lparr>world := Some this\<rparr>) h;
          (constraint, h2) = Constraint opts h1;
          h3 = world_upd this (\<lambda>w. w\<lparr>constraints_' := constraints_' w @ [constraint]\<rparr>) h2
      in (constraint, h3))"

subsection \<open>collidePoints\<close>

text \<open>
  The receiver \<^verbatim>\<open>this\<close> is not used by the method and is left out. The two writes are
  in the order of the source, the second reading the store the first one left, so the
  model is also right when both arguments are the same object.
\<close>

definition collidePoints_' :: "ref \<Rightarrow> ref \<Rightarrow> heap \<Rightarrow> heap" where
  "collidePoints_' point1 point2 h =
     (let between = vec2_subtract (current (points h point1)) (current (points h point2));
          distance = dsub (dsub (vec2_length between) (radius (points h point1)))
                          (radius (points h point2))
      in if val distance \<ge> 0 then h
         else
           let direction = vec2_normalize between;
               adjustment = vec2_scale direction (ddiv (dneg distance) (dbl 2));
               h1 = point_upd point1 (\<lambda>p. p\<lparr>current := vec2_add (current p) adjustment\<rparr>) h
           in point_upd point2 (\<lambda>p. p\<lparr>current := vec2_subtract (current p) adjustment\<rparr>) h1)"

subsection \<open>interact\<close>

text \<open>
  The loop over \<^verbatim>\<open>this.points_\<close>. Its body writes to points only, never to a World, so
  the array and its length are the same at every iteration and the loop is a
  traversal of the list read at its start.
\<close>

fun interact_loop :: "ref \<Rightarrow> ref list \<Rightarrow> call list \<times> heap \<Rightarrow> call list \<times> heap" where
  "interact_loop point [] (tr, h) = (tr, h)"
| "interact_loop point (point2 # rest) (tr, h) =
     (if point \<noteq> point2 \<and> interactive (points h point2)
      then interact_loop point rest
             (tr @ [CollidePoints point point2], collidePoints_' point point2 h)
      else interact_loop point rest (tr, h))"

definition interact :: "ref \<Rightarrow> ref \<Rightarrow> heap \<Rightarrow> call list \<times> heap" where
  "interact this point h =
     (let (tr, h1) = interact_loop point (points_' (worlds h this)) ([], h);
          r = radius (points h1 point);
          x = fst (current (points h1 point));
          y = snd (current (points h1 point));
          h2 = point_upd point (\<lambda>p. p\<lparr>current :=
                 ((if val x < val r then r
                   else if val x > val (dsub (width (worlds h1 this)) r)
                     then dsub (width (worlds h1 this)) r
                   else x),
                  snd (current p))\<rparr>) h1;
          h3 = point_upd point (\<lambda>p. p\<lparr>current :=
                 (fst (current p),
                  (if val y < val r then r
                   else if val y > val (dsub (height (worlds h2 this)) r)
                     then dsub (height (worlds h2 this)) r
                   else y))\<rparr>) h2
      in (tr, h3))"

subsection \<open>step\<close>

text \<open>
  The methods \<^verbatim>\<open>satisfy\<close> of a constraint and \<^verbatim>\<open>move\<close> of a point are not in world.js;
  they are parameters, any function from store to store. Each loop reads the length
  once, before its first iteration, and reads the array again at every iteration; an
  index beyond the array gives \<^verbatim>\<open>undefined\<close>, and the method call on it throws.
\<close>

function satisfy_loop ::
  "(ref \<Rightarrow> double \<Rightarrow> heap \<Rightarrow> heap) \<Rightarrow> ref \<Rightarrow> nat \<Rightarrow> nat \<Rightarrow> call list \<times> heap
     \<Rightarrow> error + call list \<times> heap" where
  "satisfy_loop satisfy this i l (tr, h) =
     (if i < l then
        (let cs = constraints_' (worlds h this)
         in if i < length cs
            then satisfy_loop satisfy this (Suc i) l
                   (tr @ [Satisfy (cs ! i) DT], satisfy (cs ! i) DT h)
            else Inl TypeError)
      else Inr (tr, h))"
  by pat_completeness auto
termination
  by (relation "measure (\<lambda>(satisfy, this, i, l, s). l - i)") auto

function move_loop ::
  "(ref \<Rightarrow> double \<Rightarrow> heap \<Rightarrow> heap) \<Rightarrow> ref \<Rightarrow> nat \<Rightarrow> nat \<Rightarrow> call list \<times> heap
     \<Rightarrow> error + call list \<times> heap" where
  "move_loop move this i l (tr, h) =
     (if i < l then
        (let ps = points_' (worlds h this)
         in if i < length ps
            then move_loop move this (Suc i) l
                   (tr @ [Move (ps ! i) DT], move (ps ! i) DT h)
            else Inl TypeError)
      else Inr (tr, h))"
  by pat_completeness auto
termination
  by (relation "measure (\<lambda>(move, this, i, l, s). l - i)") auto

definition step ::
  "(ref \<Rightarrow> double \<Rightarrow> heap \<Rightarrow> heap) \<Rightarrow> (ref \<Rightarrow> double \<Rightarrow> heap \<Rightarrow> heap) \<Rightarrow> ref \<Rightarrow> heap
     \<Rightarrow> error + call list \<times> heap" where
  "step satisfy move this h =
     (case satisfy_loop satisfy this 0 (length (constraints_' (worlds h this))) ([], h) of
        Inl e \<Rightarrow> Inl e
      | Inr (tr, h1) \<Rightarrow>
          move_loop move this 0 (length (points_' (worlds h1 this))) (tr, h1))"

subsection \<open>Conversion to pixels\<close>

definition pointToPixels :: "ref \<Rightarrow> ref \<Rightarrow> heap \<Rightarrow> vec2" where
  "pointToPixels this point h =
     vec2_multiply (current (points h point)) (scale_' (worlds h this))"

definition valueToPixels :: "ref \<Rightarrow> double \<Rightarrow> heap \<Rightarrow> double" where
  "valueToPixels this v h = dmul v (maxScale_' (worlds h this))"

subsection \<open>Scenarios\<close>

text \<open>
  A store of the host before any World is made, with a viewport of the given size:
  every object is blank.
\<close>

definition host :: "real \<Rightarrow> real \<Rightarrow> heap" where
  "host w hgt =
     \<lparr>worlds = (\<lambda>r. \<lparr>width = dbl 0, height = dbl 0, gravity = (dbl 0, dbl 0),
                       points_' = [], constraints_' = [], scale_' = (dbl 0, dbl 0),
                       maxScale_' = dbl 0\<rparr>),
      points = (\<lambda>r. \<lparr>current = (dbl 0, dbl 0), radius = dbl 0, interactive = False\<rparr>),
      configs = (\<lambda>r. \<lparr>world = None\<rparr>),
      window = \<lparr>innerWidth = dbl w, innerHeight = dbl hgt\<rparr>\<rparr>"

text \<open>
  Stand-ins for the two constructors: the new object is at the reference \<open>r\<close>; the
  point made has radius 1, is interactive and sits at the origin.
\<close>

definition Point_double :: "ref \<Rightarrow> ref \<Rightarrow> heap \<Rightarrow> ref \<times> heap" where
  "Point_double r opts h =
     (r, point_upd r
           (\<lambda>p. \<lparr>current = (dbl 0, dbl 0), radius = dbl 1, interactive = True\<rparr>) h)"

definition Constraint_double :: "ref \<Rightarrow> ref \<Rightarrow> heap \<Rightarrow> ref \<times> heap" where
  "Constraint_double r opts h = (r, h)"

text \<open>
  The World 2 made in a viewport of 800 by 600, with two points added through
  \<open>addPoint\<close> from the options object 9 and then given the radius \<open>r\<close> and placed:
  point 0 at \<open>c0\<close> with the flag \<open>b0\<close>, point 1 at \<open>c1\<close> with the flag \<open>b1\<close>. The numbers
  are literals of the source: the doubles nearest to them. With the radius 1 it is
  \<open>two_discs\<close>.
\<close>

definition discs :: "real \<Rightarrow> real \<times> real \<Rightarrow> bool \<Rightarrow> real \<times> real \<Rightarrow> bool \<Rightarrow> heap" where
  "discs r c0 b0 c1 b1 =
     point_upd 0 (\<lambda>p. p\<lparr>current := (dbl (fst c0), dbl (snd c0)), radius := dbl r,
                         interactive := b0\<rparr>)
       (point_upd 1 (\<lambda>p. p\<lparr>current := (dbl (fst c1), dbl (snd c1)), radius := dbl r,
                           interactive := b1\<rparr>)
          (snd (addPoint (Point_double 1) 2 9
             (snd (addPoint (Point_double 0) 2 9
                (World 2 ([] :: vec2 list) (host 800 600)))))))"

definition two_discs :: "real \<times> real \<Rightarrow> bool \<Rightarrow> real \<times> real \<Rightarrow> bool \<Rightarrow> heap" where
  "two_discs c0 b0 c1 b1 = discs 1 c0 b0 c1 b1"

text \<open>
  Stand-ins for the two methods: a constraint that pins point 1 to \<open>(3/2, 0)\<close>, and a
  point whose \<open>move\<close> is the call back into \<open>interact\<close> of the World 2 that the spec
  describes, without the integration.
\<close>

definition pin_satisfy :: "ref \<Rightarrow> double \<Rightarrow> heap \<Rightarrow> heap" where
  "pin_satisfy c dt h = point_upd 1 (\<lambda>p. p\<lparr>current := (dbl (3 / 2), dbl 0)\<rparr>) h"

definition interact_move :: "ref \<Rightarrow> double \<Rightarrow> heap \<Rightarrow> heap" where
  "interact_move p dt h = snd (interact 2 p h)"

text \<open>
  The scenario with two points three units apart and the constraint 7, added through
  \<open>addConstraint\<close>.
\<close>

definition pinned_discs :: heap where
  "pinned_discs =
     snd (addConstraint (Constraint_double 7) 2 9 (two_discs (0, 0) True (3, 0) True))"

section \<open>Properties\<close>

subsection \<open>Rounding\<close>

lemma ulp_pos: "0 < ulp x"
  by (simp add: ulp_def)

lemma round_even_lower: "\<lfloor>y\<rfloor> \<le> round_even y"
  by (simp add: round_even_def)

lemma round_even_upper: "round_even y \<le> \<lceil>y\<rceil>"
proof -
  have "y - of_int \<lfloor>y\<rfloor> \<noteq> 0 \<Longrightarrow> \<lfloor>y\<rfloor> + 1 \<le> \<lceil>y\<rceil>"
    by (metis add.commute ceiling_altdef diff_self order_refl)
  moreover have "\<lfloor>y\<rfloor> \<le> \<lceil>y\<rceil>" by (simp add: floor_le_ceiling)
  ultimately show ?thesis
    by (auto simp add: round_even_def)
qed

lemma round_even_eqI:
  assumes "\<bar>y - of_int n\<bar> < 1 / 2"
  shows "round_even y = n"
proof (cases "of_int n \<le> y")
  case True
  then have f: "\<lfloor>y\<rfloor> = n" using assms by (intro floor_unique) auto
  show ?thesis using assms True by (simp add: round_even_def f)
next
  case False
  then have f: "\<lfloor>y\<rfloor> = n - 1" using assms by (intro floor_unique) auto
  show ?thesis using assms False by (simp add: round_even_def f)
qed

lemma round_even_of_int: "round_even (of_int i) = i"
  by (rule round_even_eqI) simp

lemma round_even_error: "\<bar>of_int (round_even y) - y\<bar> \<le> 1 / 2"
proof -
  have "of_int \<lfloor>y\<rfloor> \<le> y" "y < of_int \<lfloor>y\<rfloor> + 1" by linarith+
  then show ?thesis by (auto simp add: round_even_def)
qed

lemma exponent_ge: "- 1022 \<le> exponent x"
  by (simp add: exponent_def)

lemma exponent_upper:
  assumes "x \<noteq> 0"
  shows "\<bar>x\<bar> < 2 powi (exponent x + 1)"
proof -
  have pos: "0 < \<bar>x\<bar>" using assms by simp
  have "\<bar>x\<bar> < 2 powr real_of_int (\<lfloor>log 2 \<bar>x\<bar>\<rfloor> + 1)"
    using floor_log_eq_powr_iff [OF pos, of 2 "\<lfloor>log 2 \<bar>x\<bar>\<rfloor>"] by simp
  also have "\<dots> = 2 powi (\<lfloor>log 2 \<bar>x\<bar>\<rfloor> + 1)"
    by (rule powr_real_of_int') simp_all
  also have "\<dots> \<le> 2 powi (exponent x + 1)"
    by (rule power_int_increasing) (simp_all add: exponent_def)
  finally show ?thesis .
qed

lemma exponent_lower:
  assumes "2 powi (- 1022) \<le> \<bar>x\<bar>"
  shows "2 powi (exponent x) \<le> \<bar>x\<bar>"
proof (cases "- 1022 < exponent x")
  case True
  have pos: "0 < \<bar>x\<bar>"
  proof -
    have "(0::real) < 2 powi (- 1022)" by simp
    then show ?thesis using assms by linarith
  qed
  have e: "exponent x = \<lfloor>log 2 \<bar>x\<bar>\<rfloor>"
    using True by (simp add: exponent_def max_def split: if_splits)
  have "2 powr real_of_int \<lfloor>log 2 \<bar>x\<bar>\<rfloor> \<le> \<bar>x\<bar>"
    using floor_log_eq_powr_iff [OF pos, of 2 "\<lfloor>log 2 \<bar>x\<bar>\<rfloor>"] by simp
  moreover have "2 powr real_of_int \<lfloor>log 2 \<bar>x\<bar>\<rfloor> = 2 powi \<lfloor>log 2 \<bar>x\<bar>\<rfloor>"
    by (rule powr_real_of_int') simp_all
  ultimately show ?thesis by (simp add: e)
next
  case False
  then have "exponent x = - 1022" using exponent_ge [of x] by simp
  then show ?thesis using assms by simp
qed

lemma exponent_lower_normal:
  assumes "x \<noteq> 0" and "- 1022 < exponent x"
  shows "2 powi (exponent x) \<le> \<bar>x\<bar>"
proof -
  have pos: "0 < \<bar>x\<bar>" using assms by simp
  have e: "exponent x = \<lfloor>log 2 \<bar>x\<bar>\<rfloor>"
    using assms(2) by (simp add: exponent_def max_def split: if_splits)
  have "2 powr real_of_int \<lfloor>log 2 \<bar>x\<bar>\<rfloor> \<le> \<bar>x\<bar>"
    using floor_log_eq_powr_iff [OF pos, of 2 "\<lfloor>log 2 \<bar>x\<bar>\<rfloor>"] by simp
  moreover have "2 powr real_of_int \<lfloor>log 2 \<bar>x\<bar>\<rfloor> = 2 powi \<lfloor>log 2 \<bar>x\<bar>\<rfloor>"
    by (rule powr_real_of_int') simp_all
  ultimately show ?thesis by (simp add: e)
qed

lemma fl_zero: "fl 0 = 0"
  by (simp add: fl_def round_even_def)

lemma quotient_bound:
  assumes "x \<noteq> 0"
  shows "\<bar>x / ulp x\<bar> < 2 ^ 53"
proof -
  have "\<bar>x\<bar> < 2 powi (exponent x + 1)" by (rule exponent_upper [OF assms])
  also have "\<dots> = 2 ^ 53 * ulp x"
    by (simp add: ulp_def power_int_add power_int_diff)
  finally show ?thesis
    using ulp_pos [of x] by (simp add: abs_divide pos_divide_less_eq abs_of_pos)
qed

lemma round_even_bound:
  assumes "\<bar>y\<bar> < 2 ^ 53"
  shows "\<bar>round_even y\<bar> \<le> 2 ^ 53"
proof -
  have "- (2 ^ 53) \<le> \<lfloor>y\<rfloor>" using assms by (simp add: le_floor_iff abs_less_iff)
  moreover have "\<lceil>y\<rceil> \<le> 2 ^ 53" using assms by (simp add: ceiling_le_iff abs_less_iff)
  ultimately show ?thesis
    using round_even_lower [of y] round_even_upper [of y] by linarith
qed

lemma zero_in_doubles: "0 \<in> doubles"
proof -
  have "(0::real) = of_int 0 * 2 powi 0" by simp
  then show ?thesis unfolding doubles_def by fastforce
qed

lemma fl_in_doubles: "fl x \<in> doubles"
proof (cases "x = 0")
  case True
  then show ?thesis by (simp add: fl_zero zero_in_doubles)
next
  case False
  define n where "n = round_even (x / ulp x)"
  define k where "k = exponent x - 52"
  have k: "- 1074 \<le> k" using exponent_ge [of x] by (simp add: k_def)
  have n: "\<bar>n\<bar> \<le> 2 ^ 53"
    unfolding n_def by (rule round_even_bound [OF quotient_bound [OF False]])
  have f: "fl x = of_int n * 2 powi k" by (simp add: fl_def n_def ulp_def k_def)
  show ?thesis
  proof (cases "\<bar>n\<bar> < 2 ^ 53")
    case True
    then show ?thesis unfolding doubles_def f using k by blast
  next
    case False
    then have top: "n = 2 ^ 53 \<or> n = - (2 ^ 53)" using n by linarith
    then have "fl x = of_int (n div 2) * 2 powi (k + 1)"
      unfolding f by (auto simp add: power_int_add)
    moreover have "\<bar>n div 2\<bar> < 2 ^ 53" using top by auto
    ultimately show ?thesis unfolding doubles_def using k
      by (intro CollectI exI [of _ "n div 2"] exI [of _ "k + 1"]) simp
  qed
qed

text \<open>A double at least as large as the lower end of a binade is a multiple of the ulp there.\<close>

lemma doubles_multiple:
  assumes c: "c \<in> doubles" and k: "- 1074 \<le> k"
    and big: "2 powi (k + 52) \<le> \<bar>c\<bar> \<or> k = - 1074"
  shows "\<exists>i::int. c = of_int i * 2 powi k"
proof -
  from c obtain m j where m: "c = of_int m * 2 powi j" "\<bar>m\<bar> < 2 ^ 53" "- 1074 \<le> j"
    unfolding doubles_def by blast
  have "k \<le> j"
  proof (rule ccontr)
    assume "\<not> k \<le> j"
    then have jk: "j + 1 \<le> k" by simp
    then have "k \<noteq> - 1074" using m(3) by simp
    with big have b: "2 powi (k + 52) \<le> \<bar>c\<bar>" by simp
    have "\<bar>c\<bar> = of_int \<bar>m\<bar> * 2 powi j" by (simp add: m(1) abs_mult)
    also have "\<dots> \<le> (2 ^ 53 - 1) * 2 powi j"
    proof -
      have "\<bar>m\<bar> \<le> 2 ^ 53 - 1" using m(2) by simp
      then have "(of_int \<bar>m\<bar> :: real) \<le> of_int (2 ^ 53 - 1)" by (rule of_int_le_iff [THEN iffD2])
      then show ?thesis by (simp add: mult_right_mono)
    qed
    also have "\<dots> < 2 ^ 53 * 2 powi j" by simp
    also have "\<dots> = 2 powi (j + 53)" by (simp add: power_int_add)
    also have "\<dots> \<le> 2 powi (k + 52)"
      by (rule power_int_increasing) (use jk in simp_all)
    finally show False using b by simp
  qed
  then have "(2::real) powi (j - k) = 2 ^ nat (j - k)"
    by (simp add: power_int_def)
  moreover have "(2::real) powi j = 2 powi (j - k) * 2 powi k"
    by (simp add: power_int_add [symmetric])
  ultimately have "2 powi j = (2::real) ^ nat (j - k) * 2 powi k"
    by simp
  then have "c = of_int (m * 2 ^ nat (j - k)) * 2 powi k"
    by (simp add: m(1))
  then show ?thesis by blast
qed

lemma multiple_le_fl:
  assumes "c = of_int i * ulp t" and "c \<le> t"
  shows "c \<le> fl t"
proof -
  have "of_int i \<le> t / ulp t"
    using assms ulp_pos [of t] by (simp add: pos_le_divide_eq)
  then have "i \<le> \<lfloor>t / ulp t\<rfloor>" by (simp add: le_floor_iff)
  then have "i \<le> round_even (t / ulp t)" using round_even_lower [of "t / ulp t"] by linarith
  then have "(of_int i :: real) \<le> of_int (round_even (t / ulp t))" by simp
  then show ?thesis
    unfolding fl_def assms(1) using ulp_pos [of t] by (simp add: mult_right_mono)
qed

lemma fl_ge_binade:
  assumes "2 powi (exponent t) \<le> t"
  shows "2 powi (exponent t) \<le> fl t"
proof -
  have "2 powi (exponent t) = of_int (2 ^ 52) * ulp t"
    by (simp add: ulp_def power_int_diff)
  then show ?thesis using assms by (rule multiple_le_fl)
qed

text \<open>Rounding does not pass a double: a double below a real is not above its rounding.\<close>

lemma doubles_le_fl:
  assumes c: "c \<in> doubles" and le: "c \<le> t"
  shows "c \<le> fl t"
proof (cases "t = 0")
  case True
  then show ?thesis using le by (simp add: fl_zero)
next
  case t0: False
  define k where "k = exponent t - 52"
  have k: "- 1074 \<le> k" using exponent_ge [of t] by (simp add: k_def)
  have u: "ulp t = 2 powi k" by (simp add: ulp_def k_def)
  show ?thesis
  proof (cases "2 powi (k + 52) \<le> \<bar>c\<bar> \<or> k = - 1074")
    case True
    from doubles_multiple [OF c k True] obtain i :: int where "c = of_int i * 2 powi k" by blast
    then show ?thesis using le by (intro multiple_le_fl [of c i t]) (simp_all add: u)
  next
    case False
    then have small: "\<bar>c\<bar> < 2 powi (exponent t)" and norm: "- 1022 < exponent t"
      using k by (simp_all add: k_def)
    have big: "2 powi (exponent t) \<le> \<bar>t\<bar>" by (rule exponent_lower_normal [OF t0 norm])
    show ?thesis
    proof (cases "0 < t")
      case True
      then have "2 powi (exponent t) \<le> fl t" using big by (intro fl_ge_binade) simp
      then show ?thesis using small by linarith
    next
      case False
      then have "t \<le> - (2 powi (exponent t))" using big t0 by linarith
      then show ?thesis using small le by linarith
    qed
  qed
qed


text \<open>A double is its own rounding.\<close>

lemma fl_idem:
  assumes c: "c \<in> doubles"
  shows "fl c = c"
proof (cases "c = 0")
  case True
  then show ?thesis by (simp add: fl_zero)
next
  case False
  define k where "k = exponent c - 52"
  have k: "- 1074 \<le> k" using exponent_ge [of c] by (simp add: k_def)
  have "2 powi (k + 52) \<le> \<bar>c\<bar> \<or> k = - 1074"
  proof (cases "- 1022 < exponent c")
    case True
    then show ?thesis using exponent_lower_normal [OF False True] by (simp add: k_def)
  next
    case False
    then show ?thesis using exponent_ge [of c] by (simp add: k_def)
  qed
  from doubles_multiple [OF c k this] obtain i :: int where i: "c = of_int i * 2 powi k"
    by blast
  have u: "ulp c = 2 powi k" by (simp add: ulp_def k_def)
  have "c / 2 powi k = of_int i" by (subst i) simp
  then have "round_even (c / ulp c) = i" by (simp add: u round_even_of_int)
  then have "fl c = of_int i * 2 powi k" by (simp add: fl_def u)
  then show ?thesis using i by simp
qed

text \<open>Evaluation at a double given as a fraction, and at a real between two doubles.\<close>

lemma fl_exact:
  fixes j :: nat and n :: int
  assumes "x * 2 ^ j = of_int n" and "\<bar>n\<bar> < 2 ^ 53" and "j \<le> 1074"
  shows "fl x = x"
proof -
  have "x = of_int n / 2 ^ j" using assms(1) by (simp add: field_simps)
  also have "\<dots> = of_int n * 2 powi (- int j)"
    by (simp add: power_int_minus field_simps)
  finally have "x \<in> doubles"
    unfolding doubles_def using assms(2,3)
    by (intro CollectI exI [of _ n] exI [of _ "- int j"]) simp
  then show ?thesis by (rule fl_idem)
qed

lemma fl_eval:
  fixes j :: nat and n :: int
  assumes lo: "2 ^ 52 \<le> \<bar>x\<bar> * 2 ^ j" and hi: "\<bar>x\<bar> * 2 ^ j < 2 ^ 53"
    and j: "j \<le> 1074" and near: "\<bar>x * 2 ^ j - of_int n\<bar> < 1 / 2"
  shows "fl x = of_int n / 2 ^ j"
proof -
  have x0: "0 < \<bar>x\<bar>" using lo by (cases "x = 0") auto
  have p1: "(2::real) powr real_of_int (52 - int j) = 2 ^ 52 / 2 ^ j"
    by (simp add: powr_diff powr_realpow)
  have p2: "(2::real) powr real_of_int (52 - int j + 1) = 2 ^ 53 / 2 ^ j"
    by (simp add: powr_diff powr_realpow)
  have "2 powr real_of_int (52 - int j) \<le> \<bar>x\<bar>
        \<and> \<bar>x\<bar> < 2 powr real_of_int (52 - int j + 1)"
    unfolding p1 p2 using lo hi by (simp add: field_simps)
  then have "\<lfloor>log 2 \<bar>x\<bar>\<rfloor> = 52 - int j"
    using floor_log_eq_powr_iff [OF x0, of 2 "52 - int j"] by simp
  then have e: "exponent x = 52 - int j" using j by (simp add: exponent_def)
  have u: "ulp x = 1 / 2 ^ j" by (simp add: ulp_def e power_int_minus field_simps)
  have "round_even (x / ulp x) = n"
    by (rule round_even_eqI) (use near in \<open>simp add: u\<close>)
  then show ?thesis by (simp add: fl_def u)
qed

text \<open>The error of a rounding, relative to the real rounded, outside the subnormal range.\<close>

lemma fl_error:
  assumes "2 powi (- 1022) \<le> \<bar>x\<bar>"
  shows "\<bar>fl x - x\<bar> \<le> \<bar>x\<bar> / 2 ^ 53"
proof -
  have "\<bar>fl x - x\<bar> = \<bar>of_int (round_even (x / ulp x)) - x / ulp x\<bar> * ulp x"
  proof -
    have "fl x - x = (of_int (round_even (x / ulp x)) - x / ulp x) * ulp x"
      using ulp_pos [of x] by (simp add: fl_def field_simps)
    then show ?thesis using ulp_pos [of x] by (simp add: abs_mult)
  qed
  also have "\<dots> \<le> 1 / 2 * ulp x"
    using round_even_error [of "x / ulp x"] ulp_pos [of x] by (intro mult_right_mono) simp_all
  also have "ulp x = 2 powi (exponent x) / 2 ^ 52"
    by (simp add: ulp_def power_int_diff)
  also have "1 / 2 * (2 powi (exponent x) / 2 ^ 52) \<le> 1 / 2 * (\<bar>x\<bar> / 2 ^ 52)"
    using exponent_lower [OF assms] by (simp add: divide_right_mono)
  finally show ?thesis by simp
qed

subsection \<open>Operations on doubles\<close>

lemma val_dbl: "val (dbl x) = fl x"
  by (simp add: dbl_def Abs_double_inverse fl_in_doubles)

lemma val_le_fl: "val c \<le> t \<Longrightarrow> val c \<le> fl t"
  using val [of c] by (rule doubles_le_fl)

lemma fl_val: "fl (val c) = val c"
  using val [of c] by (rule fl_idem)

lemma dbl_val: "dbl (val c) = c"
  by (simp add: dbl_def fl_val val_inverse)

lemma val_ops:
  "val (dadd a b) = fl (val a + val b)"
  "val (dsub a b) = fl (val a - val b)"
  "val (dmul a b) = fl (val a * val b)"
  "val (ddiv a b) = fl (val a / val b)"
  "val (dneg a) = fl (- val a)"
  "val (dsqrt a) = fl (sqrt (val a))"
  by (simp_all add: dadd_def dsub_def dmul_def ddiv_def dneg_def dsqrt_def val_dbl)

lemma dbl_neq: "fl x \<noteq> fl y \<Longrightarrow> dbl x \<noteq> dbl y"
  using val_dbl [of x] val_dbl [of y] by auto

text \<open>The numbers of the scenarios that are doubles.\<close>

lemma fl_small:
  "fl 1 = 1" "fl 2 = 2" "fl 3 = 3" "fl 5 = 5" "fl 10 = 10" "fl 16 = 16"
  "fl 600 = 600" "fl 800 = 800" "fl (3 / 2) = 3 / 2" "fl (11 / 2) = 11 / 2"
  by (rule fl_exact [where j = 1 and n = 2], simp, simp, simp,
      rule fl_exact [where j = 1 and n = 4], simp, simp, simp,
      rule fl_exact [where j = 1 and n = 6], simp, simp, simp,
      rule fl_exact [where j = 1 and n = 10], simp, simp, simp,
      rule fl_exact [where j = 1 and n = 20], simp, simp, simp,
      rule fl_exact [where j = 1 and n = 32], simp, simp, simp,
      rule fl_exact [where j = 1 and n = 1200], simp, simp, simp,
      rule fl_exact [where j = 1 and n = 1600], simp, simp, simp,
      rule fl_exact [where j = 1 and n = 3], simp, simp, simp,
      rule fl_exact [where j = 1 and n = 11], simp, simp, simp)

subsection \<open>Reading the store after a write\<close>

lemma worlds_world_upd: "worlds (world_upd r f h) = (worlds h)(r := f (worlds h r))"
  by (simp add: world_upd_def)

lemma window_world_upd: "window (world_upd r f h) = window h"
  by (simp add: world_upd_def)

lemma points_world_upd: "points (world_upd r f h) = points h"
  by (simp add: world_upd_def)

lemma configs_world_upd: "configs (world_upd r f h) = configs h"
  by (simp add: world_upd_def)

lemma worlds_point_upd: "worlds (point_upd r f h) = worlds h"
  by (simp add: point_upd_def)

lemma points_point_upd: "points (point_upd r f h) = (points h)(r := f (points h r))"
  by (simp add: point_upd_def)

lemma worlds_config_upd: "worlds (config_upd r f h) = worlds h"
  by (simp add: config_upd_def)

lemma configs_config_upd: "configs (config_upd r f h) = (configs h)(r := f (configs h r))"
  by (simp add: config_upd_def)

lemma points_config_upd: "points (config_upd r f h) = points h"
  by (simp add: config_upd_def)

subsection \<open>Sizing\<close>

lemma setSize_wide:
  assumes "val (innerHeight (window h)) < val (innerWidth (window h))"
  shows "worlds (setSize this h) this = (worlds h this)
           \<lparr>width := dmul MIN_DIMENSION (ddiv (innerWidth (window h)) (innerHeight (window h))),
            height := MIN_DIMENSION,
            scale_' := (ddiv (innerWidth (window h))
                          (dmul MIN_DIMENSION
                             (ddiv (innerWidth (window h)) (innerHeight (window h)))),
                        ddiv (innerHeight (window h)) MIN_DIMENSION),
            maxScale_' := ddiv (innerWidth (window h))
                          (dmul MIN_DIMENSION
                             (ddiv (innerWidth (window h)) (innerHeight (window h))))\<rparr>"
  using assms by (simp add: setSize_def Let_def worlds_world_upd vec2_createFrom_def)

lemma setSize_tall:
  assumes "val (innerWidth (window h)) \<le> val (innerHeight (window h))"
  shows "worlds (setSize this h) this = (worlds h this)
           \<lparr>width := MIN_DIMENSION,
            height := dmul MIN_DIMENSION (ddiv (innerHeight (window h)) (innerWidth (window h))),
            scale_' := (ddiv (innerWidth (window h)) MIN_DIMENSION,
                        ddiv (innerHeight (window h))
                          (dmul MIN_DIMENSION
                             (ddiv (innerHeight (window h)) (innerWidth (window h))))),
            maxScale_' := ddiv (innerHeight (window h))
                          (dmul MIN_DIMENSION
                             (ddiv (innerHeight (window h)) (innerWidth (window h))))\<rparr>"
  using assms by (simp add: setSize_def Let_def worlds_world_upd vec2_createFrom_def)

lemma setSize_gravity: "gravity (worlds (setSize this h) this) = gravity (worlds h this)"
  by (simp add: setSize_def Let_def worlds_world_upd)

lemma setSize_collections:
  "points_' (worlds (setSize this h) this) = points_' (worlds h this)"
  "constraints_' (worlds (setSize this h) this) = constraints_' (worlds h this)"
  by (simp_all add: setSize_def Let_def worlds_world_upd)

lemma setSize_dimensions_window:
  assumes "window h = window g"
  shows "width (worlds (setSize this h) this) = width (worlds (setSize this g) this)"
    and "height (worlds (setSize this h) this) = height (worlds (setSize this g) this)"
    and "scale_' (worlds (setSize this h) this) = scale_' (worlds (setSize this g) this)"
    and "maxScale_' (worlds (setSize this h) this) = maxScale_' (worlds (setSize this g) this)"
  using assms by (simp_all add: setSize_def Let_def worlds_world_upd window_world_upd)

lemma window_host: "window (host w hgt) = \<lparr>innerWidth = dbl w, innerHeight = dbl hgt\<rparr>"
  by (simp add: host_def)

lemma val_MIN_DIMENSION: "val MIN_DIMENSION = 10"
  by (simp add: MIN_DIMENSION_def val_dbl fl_small)

text \<open>The quotient of a larger by a smaller positive double and its product with 10.\<close>

lemma ratio_ge_one:
  assumes "0 < val b" and "val b \<le> val a"
  shows "1 \<le> val (ddiv a b)"
proof -
  have "(1::real) = of_int 1 * 2 powi 0" by simp
  then have one: "(1::real) \<in> doubles"
    unfolding doubles_def by (intro CollectI exI [of _ 1] exI [of _ 0]) simp
  have "1 \<le> val a / val b" using assms by simp
  then show ?thesis unfolding val_ops by (rule doubles_le_fl [OF one])
qed

lemma long_side_ge_MIN:
  assumes "1 \<le> val q"
  shows "val MIN_DIMENSION \<le> val (dmul MIN_DIMENSION q)"
proof -
  have "val MIN_DIMENSION \<le> val MIN_DIMENSION * val q"
    using assms by (simp add: val_MIN_DIMENSION)
  then show ?thesis unfolding val_ops by (rule val_le_fl)
qed

subsection \<open>The scenario with two points\<close>

lemma val_800_600:
  "val (ddiv (dbl 800) (dbl 600)) = 6004799503160661 / 2 ^ 52"
  "val (dmul MIN_DIMENSION (ddiv (dbl 800) (dbl 600))) = 7505999378950826 / 2 ^ 49"
proof -
  show q: "val (ddiv (dbl 800) (dbl 600)) = 6004799503160661 / 2 ^ 52"
    unfolding val_ops val_dbl fl_small
    using fl_eval [of "800 / 600" 52 6004799503160661] by simp
  show "val (dmul MIN_DIMENSION (ddiv (dbl 800) (dbl 600))) = 7505999378950826 / 2 ^ 49"
    unfolding val_ops(3) q val_MIN_DIMENSION
    using fl_eval [of "10 * (6004799503160661 / 2 ^ 52)" 49 7505999378950826] by simp
qed

lemma World_host:
  "worlds (World 2 ([] :: vec2 list) (host 800 600)) 2
     = \<lparr>width = dmul MIN_DIMENSION (ddiv (dbl 800) (dbl 600)), height = MIN_DIMENSION,
        gravity = (dbl 0, dbl 0), points_' = [], constraints_' = [],
        scale_' = (ddiv (dbl 800) (dmul MIN_DIMENSION (ddiv (dbl 800) (dbl 600))),
                   ddiv (dbl 600) MIN_DIMENSION),
        maxScale_' = ddiv (dbl 800) (dmul MIN_DIMENSION (ddiv (dbl 800) (dbl 600)))\<rparr>"
  by (simp add: World_def Let_def setSize_wide window_world_upd window_host worlds_world_upd
      vec2_createFrom_def host_def val_dbl fl_small)

lemma discs_world:
  "worlds (discs r c0 b0 c1 b1) 2
     = \<lparr>width = dmul MIN_DIMENSION (ddiv (dbl 800) (dbl 600)), height = MIN_DIMENSION,
        gravity = (dbl 0, dbl 0), points_' = [0, 1], constraints_' = [],
        scale_' = (ddiv (dbl 800) (dmul MIN_DIMENSION (ddiv (dbl 800) (dbl 600))),
                   ddiv (dbl 600) MIN_DIMENSION),
        maxScale_' = ddiv (dbl 800) (dmul MIN_DIMENSION (ddiv (dbl 800) (dbl 600)))\<rparr>"
  by (simp add: discs_def addPoint_def Point_double_def Let_def worlds_point_upd
      worlds_world_upd worlds_config_upd World_host)

lemma discs_points:
  "points (discs r c0 b0 c1 b1) 0
     = \<lparr>current = (dbl (fst c0), dbl (snd c0)), radius = dbl r, interactive = b0\<rparr>"
  "points (discs r c0 b0 c1 b1) 1
     = \<lparr>current = (dbl (fst c1), dbl (snd c1)), radius = dbl r, interactive = b1\<rparr>"
  "points (discs r c0 b0 c1 b1) (Suc 0)
     = \<lparr>current = (dbl (fst c1), dbl (snd c1)), radius = dbl r, interactive = b1\<rparr>"
  by (simp_all add: discs_def addPoint_def Point_double_def Let_def points_point_upd
      points_world_upd points_config_upd)

lemmas two_discs_world = discs_world [of 1, folded two_discs_def]

lemmas two_discs_points = discs_points [of 1, folded two_discs_def]

subsection \<open>Collision of two points\<close>

lemma worlds_collidePoints: "worlds (collidePoints_' p1 p2 h) = worlds h"
  by (simp add: collidePoints_'_def Let_def worlds_point_upd)

lemma interactive_collidePoints:
  "interactive (points (collidePoints_' p1 p2 h) q) = interactive (points h q)"
  by (simp add: collidePoints_'_def Let_def points_point_upd)






subsection \<open>Doubles of the scenarios\<close>

lemma fl_numeral:
  assumes "(numeral w :: int) < 2 ^ 53"
  shows "fl (numeral w) = numeral w"
  by (rule fl_exact [where j = 0 and n = "numeral w"]) (use assms in simp_all)

lemma fl_neg_numeral:
  assumes "(numeral w :: int) < 2 ^ 53"
  shows "fl (- numeral w) = - numeral w"
  by (rule fl_exact [where j = 0 and n = "- numeral w"]) (use assms in simp_all)

lemma fl_one: "fl 1 = 1" "fl (- 1) = - 1"
  by (rule fl_exact [where j = 0 and n = 1], simp, simp, simp,
      rule fl_exact [where j = 0 and n = "- 1"], simp, simp, simp)

lemma fl_quarters:
  "fl (1 / 2) = 1 / 2" "fl (- (1 / 2)) = - (1 / 2)"
  "fl (1 / 4) = 1 / 4" "fl (- (1 / 4)) = - (1 / 4)"
  "fl (3 / 2) = 3 / 2" "fl (- (3 / 2)) = - (3 / 2)"
  "fl (7 / 4) = 7 / 4" "fl (9 / 4) = 9 / 4" "fl (11 / 2) = 11 / 2"
  by (rule fl_exact [where j = 2 and n = 2], simp, simp, simp,
      rule fl_exact [where j = 2 and n = "- 2"], simp, simp, simp,
      rule fl_exact [where j = 2 and n = 1], simp, simp, simp,
      rule fl_exact [where j = 2 and n = "- 1"], simp, simp, simp,
      rule fl_exact [where j = 2 and n = 6], simp, simp, simp,
      rule fl_exact [where j = 2 and n = "- 6"], simp, simp, simp,
      rule fl_exact [where j = 2 and n = 7], simp, simp, simp,
      rule fl_exact [where j = 2 and n = 9], simp, simp, simp,
      rule fl_exact [where j = 2 and n = 22], simp, simp, simp)


lemmas fl_values = fl_zero fl_one fl_numeral fl_neg_numeral fl_quarters




lemma round_even_tie:
  assumes "\<bar>y - of_int n\<bar> = 1 / 2" and "even n"
  shows "round_even y = n"
proof (cases "of_int n \<le> y")
  case True
  then have y: "y = of_int n + 1 / 2" using assms(1) by simp
  have f: "\<lfloor>y\<rfloor> = n" unfolding y by (intro floor_unique) auto
  show ?thesis using assms(2) by (simp add: round_even_def f) (simp add: y)
next
  case False
  then have y: "y = of_int n - 1 / 2" using assms(1) by simp
  have f: "\<lfloor>y\<rfloor> = n - 1" unfolding y by (intro floor_unique) auto
  show ?thesis using assms(2) by (simp add: round_even_def f) (simp add: y)
qed

lemma fl_eval_tie:
  fixes j :: nat and n :: int
  assumes lo: "2 ^ 52 \<le> \<bar>x\<bar> * 2 ^ j" and hi: "\<bar>x\<bar> * 2 ^ j < 2 ^ 53"
    and j: "j \<le> 1074" and tie: "\<bar>x * 2 ^ j - of_int n\<bar> = 1 / 2" and even: "even n"
  shows "fl x = of_int n / 2 ^ j"
proof -
  have x0: "0 < \<bar>x\<bar>" using lo by (cases "x = 0") auto
  have p1: "(2::real) powr real_of_int (52 - int j) = 2 ^ 52 / 2 ^ j"
    by (simp add: powr_diff powr_realpow)
  have p2: "(2::real) powr real_of_int (52 - int j + 1) = 2 ^ 53 / 2 ^ j"
    by (simp add: powr_diff powr_realpow)
  have "2 powr real_of_int (52 - int j) \<le> \<bar>x\<bar>
        \<and> \<bar>x\<bar> < 2 powr real_of_int (52 - int j + 1)"
    unfolding p1 p2 using lo hi by (simp add: field_simps)
  then have "\<lfloor>log 2 \<bar>x\<bar>\<rfloor> = 52 - int j"
    using floor_log_eq_powr_iff [OF x0, of 2 "52 - int j"] by simp
  then have e: "exponent x = 52 - int j" using j by (simp add: exponent_def)
  have u: "ulp x = 1 / 2 ^ j" by (simp add: ulp_def e power_int_minus field_simps)
  have "round_even (x / ulp x) = n"
    by (rule round_even_tie) (use tie even in \<open>simp_all add: u\<close>)
  then show ?thesis by (simp add: fl_def u)
qed



subsection \<open>Sizing and construction\<close>

text \<open>The longer side of the World, and the scale along each side, up to the roundings.\<close>

lemma tiny_le: "2 powi (- 1022) \<le> (1 / 20 :: real)"
proof -
  have "(2::real) powi (- 1022) \<le> 2 powi (- 5)"
    by (rule power_int_increasing) simp_all
  also have "\<dots> \<le> 1 / 20" by (simp add: power_int_minus)
  finally show ?thesis .
qed

lemma long_side_error:
  assumes b: "0 < val b" and ab: "val b \<le> val a"
  shows "\<bar>val (dmul MIN_DIMENSION (ddiv a b)) / 10 - val a / val b\<bar> \<le> val a / val b / 2 ^ 51"
proof -
  define q where "q = val a / val b"
  define q' where "q' = fl q"
  define w where "w = fl (10 * q')"
  have q1: "1 \<le> q" using b ab by (simp add: q_def)
  have q'1: "1 \<le> q'" using ratio_ge_one [OF b ab] by (simp add: q'_def q_def val_ops)
  have "2 powi (- 1022) \<le> \<bar>q\<bar>" using tiny_le q1 by linarith
  then have e1: "\<bar>q' - q\<bar> \<le> \<bar>q\<bar> / 2 ^ 53" unfolding q'_def by (rule fl_error)
  have "2 powi (- 1022) \<le> \<bar>10 * q'\<bar>" using tiny_le q'1 by linarith
  then have e2: "\<bar>w - 10 * q'\<bar> \<le> \<bar>10 * q'\<bar> / 2 ^ 53" unfolding w_def by (rule fl_error)
  have a1: "\<bar>q' - q\<bar> \<le> q / 9007199254740992" using e1 q1 by simp
  have a2: "\<bar>w - 10 * q'\<bar> \<le> 10 * q' / 9007199254740992" using e2 q'1 by simp
  have "\<bar>w / 10 - q\<bar> \<le> q / 2251799813685248" using a1 a2 q1 q'1 by linarith
  then have "\<bar>w / 10 - q\<bar> \<le> q / 2 ^ 51" by simp
  moreover have "val (dmul MIN_DIMENSION (ddiv a b)) = w"
    by (simp add: w_def q'_def q_def val_ops val_MIN_DIMENSION)
  ultimately show ?thesis by (simp add: q_def)
qed

lemma short_scale_error:
  assumes "1 \<le> val b"
  shows "\<bar>val (ddiv b MIN_DIMENSION) - val b / 10\<bar> \<le> val b / 10 / 2 ^ 49"
proof -
  have "2 powi (- 1022) \<le> \<bar>val b / 10\<bar>" using tiny_le assms by simp
  then have "\<bar>fl (val b / 10) - val b / 10\<bar> \<le> \<bar>val b / 10\<bar> / 2 ^ 53" by (rule fl_error)
  then have "\<bar>fl (val b / 10) - val b / 10\<bar> \<le> val b / 10 / 9007199254740992"
    using assms by simp
  then have "\<bar>fl (val b / 10) - val b / 10\<bar> \<le> val b / 10 / 562949953421312"
    using assms by linarith
  then show ?thesis by (simp add: val_ops val_MIN_DIMENSION)
qed

lemma long_scale_error:
  assumes b: "1 \<le> val b" and ab: "val b \<le> val a"
  shows "\<bar>val (ddiv a (dmul MIN_DIMENSION (ddiv a b))) - val b / 10\<bar> \<le> val b / 10 / 2 ^ 49"
proof -
  define q where "q = val a / val b"
  define w where "w = val (dmul MIN_DIMENSION (ddiv a b))"
  define A where "A = val b / 10"
  define t where "t = val a / w"
  have b0: "0 < val b" using b by simp
  have q1: "1 \<le> q" using b0 ab by (simp add: q_def)
  have A0: "0 < A" using b0 by (simp add: A_def)
  have L: "10 * q * A = val a" using b0 by (simp add: q_def A_def)
  have w10: "10 \<le> w"
    using long_side_ge_MIN [OF ratio_ge_one [OF b0 ab]] by (simp add: w_def val_MIN_DIMENSION)
  have tw: "t * w = val a" using w10 by (simp add: t_def)
  have t0: "0 < t" using w10 b0 ab by (simp add: t_def)
  have "\<bar>w / 10 - q\<bar> \<le> q / 2 ^ 51"
    using long_side_error [OF b0 ab] by (simp add: w_def q_def)
  then have "\<bar>w / 10 - q\<bar> \<le> q / 2251799813685248" by simp
  then have "\<bar>w - 10 * q\<bar> \<le> 10 * q / 2251799813685248" by linarith
  then have "\<bar>w - 10 * q\<bar> * A \<le> 10 * q / 2251799813685248 * A"
    using A0 by (intro mult_right_mono) simp_all
  moreover have "\<bar>w * A - 10 * q * A\<bar> = \<bar>w - 10 * q\<bar> * A"
    using A0 by (simp add: abs_mult abs_of_pos flip: left_diff_distrib)
  ultimately have "\<bar>w * A - 10 * q * A\<bar> \<le> 10 * q * A / 2251799813685248"
    by (simp add: mult.commute)
  then have "\<bar>w * A - t * w\<bar> \<le> t * w / 2251799813685248" by (simp only: L tw)
  moreover have "\<bar>w * A - t * w\<bar> = \<bar>A - t\<bar> * w"
    using w10 by (simp add: abs_mult abs_of_pos mult.commute flip: left_diff_distrib)
  ultimately have "\<bar>A - t\<bar> * w \<le> t / 2251799813685248 * w" by simp
  then have d: "\<bar>A - t\<bar> \<le> t / 2251799813685248"
    using w10 by (simp add: mult_le_cancel_right)
  have t2: "t \<le> 2 * A" "A \<le> 2 * t" using d t0 by linarith+
  have "(1 / 20 :: real) \<le> t" using t2(2) b by (simp add: A_def)
  then have "2 powi (- 1022) \<le> \<bar>t\<bar>" using tiny_le by linarith
  then have "\<bar>fl t - t\<bar> \<le> \<bar>t\<bar> / 2 ^ 53" by (rule fl_error)
  then have "\<bar>fl t - t\<bar> \<le> t / 9007199254740992" using t0 by simp
  then have "\<bar>fl t - A\<bar> \<le> A / 562949953421312" using d t2 t0 A0 by linarith
  then have "\<bar>fl t - A\<bar> \<le> A / 2 ^ 49" by simp
  moreover have "val (ddiv a (dmul MIN_DIMENSION (ddiv a b))) = fl t"
    by (simp add: t_def w_def val_ops(4))
  ultimately show ?thesis by (simp add: A_def)
qed

text \<open>
  C3, as the code has it. In a viewport of positive width and height, \<open>setSize\<close>
  leaves the World with the smaller of its width and height equal to
  \<open>MIN_DIMENSION\<close>, which is 10: the side along the shorter side of the viewport is
  \<open>MIN_DIMENSION\<close> and the other is \<open>MIN_DIMENSION\<close> times the quotient of the longer by
  the shorter side of the viewport, the quotient and the product each rounded. The
  ratio of the larger to the smaller side of the World is that of the viewport up to
  these two roundings: they differ by at most \<open>2\<^sup>-\<^sup>5\<^sup>1\<close> of the ratio of the viewport.
\<close>

theorem setSize_shorter_side_fixed:
  assumes "iw = innerWidth (window h)" and "ih = innerHeight (window h)"
    and "w = worlds (setSize this h) this"
    and "0 < val iw" and "0 < val ih"
  shows "min (val (width w)) (val (height w)) = val MIN_DIMENSION
       \<and> val MIN_DIMENSION = 10
       \<and> (val ih < val iw \<longrightarrow>
            height w = MIN_DIMENSION \<and> width w = dmul MIN_DIMENSION (ddiv iw ih))
       \<and> (val iw \<le> val ih \<longrightarrow>
            width w = MIN_DIMENSION \<and> height w = dmul MIN_DIMENSION (ddiv ih iw))
       \<and> \<bar>max (val (width w)) (val (height w)) / min (val (width w)) (val (height w))
            - max (val iw) (val ih) / min (val iw) (val ih)\<bar>
           \<le> max (val iw) (val ih) / min (val iw) (val ih) / 2 ^ 51"
proof (cases "val ih < val iw")
  case True
  then have le: "val ih \<le> val iw" by simp
  have W: "width w = dmul MIN_DIMENSION (ddiv iw ih)" "height w = MIN_DIMENSION"
    using True assms(1-3) setSize_wide [of h this] by simp_all
  have ge: "val MIN_DIMENSION \<le> val (width w)"
    unfolding W by (rule long_side_ge_MIN [OF ratio_ge_one [OF assms(5) le]])
  have mn: "min (val (width w)) (val (height w)) = 10"
    and mx: "max (val (width w)) (val (height w)) = val (width w)"
    using ge W(2) by (simp_all add: val_MIN_DIMENSION)
  have vp: "max (val iw) (val ih) = val iw" "min (val iw) (val ih) = val ih"
    using True by simp_all
  have "\<bar>val (width w) / 10 - val iw / val ih\<bar> \<le> val iw / val ih / 2 ^ 51"
    unfolding W by (rule long_side_error [OF assms(5) le])
  then show ?thesis
    unfolding mn mx vp using True W by (simp add: val_MIN_DIMENSION)
next
  case False
  then have le: "val iw \<le> val ih" by simp
  have W: "width w = MIN_DIMENSION" "height w = dmul MIN_DIMENSION (ddiv ih iw)"
    using le assms(1-3) setSize_tall [of h this] by simp_all
  have ge: "val MIN_DIMENSION \<le> val (height w)"
    unfolding W by (rule long_side_ge_MIN [OF ratio_ge_one [OF assms(4) le]])
  have mn: "min (val (width w)) (val (height w)) = 10"
    and mx: "max (val (width w)) (val (height w)) = val (height w)"
    using ge W(1) by (simp_all add: val_MIN_DIMENSION)
  have vp: "max (val iw) (val ih) = val ih" "min (val iw) (val ih) = val iw"
    using le by simp_all
  have "\<bar>val (height w) / 10 - val ih / val iw\<bar> \<le> val ih / val iw / 2 ^ 51"
    unfolding W by (rule long_side_error [OF assms(4) le])
  then show ?thesis
    unfolding mn mx vp using False le W by (simp add: val_MIN_DIMENSION)
qed

theorem setSize_shorter_side_fixed_witness:
  "0 < val (innerWidth (window (host 800 600)))
   \<and> 0 < val (innerHeight (window (host 800 600)))
   \<and> val (innerHeight (window (host 800 600))) < val (innerWidth (window (host 800 600)))
   \<and> height (worlds (setSize 2 (host 800 600)) 2) = MIN_DIMENSION
   \<and> val (height (worlds (setSize 2 (host 800 600)) 2)) = 10
   \<and> val (width (worlds (setSize 2 (host 800 600)) 2)) = 7505999378950826 / 2 ^ 49
   \<and> min (val (width (worlds (setSize 2 (host 800 600)) 2)))
          (val (height (worlds (setSize 2 (host 800 600)) 2))) = 10
   \<and> val (innerWidth (window (host 600 800))) \<le> val (innerHeight (window (host 600 800)))
   \<and> width (worlds (setSize 2 (host 600 800)) 2) = MIN_DIMENSION
   \<and> val (height (worlds (setSize 2 (host 600 800)) 2)) = 7505999378950826 / 2 ^ 49"
proof -
  have v: "val (dbl 800) = 800" "val (dbl 600) = 600" by (simp_all add: val_dbl fl_values)
  show ?thesis
    using setSize_shorter_side_fixed [OF refl refl refl, of "host 800 600" 2]
      setSize_shorter_side_fixed [OF refl refl refl, of "host 600 800" 2]
    by (simp add: window_host v val_800_600 val_MIN_DIMENSION)
qed

text \<open>
  C3, as the claim has it, fails: in the viewport of 1920 by 1080 the ratio of the
  sides of the World is not the ratio of the sides of the viewport, neither as reals
  nor when each is computed by a division of the source.
\<close>

theorem setSize_ratio_counterexample:
  "0 < val (innerWidth (window (host 1920 1080)))
   \<and> 0 < val (innerHeight (window (host 1920 1080)))
   \<and> val (width (worlds (setSize 2 (host 1920 1080)) 2)) = 5003999585967218 / 2 ^ 48
   \<and> val (height (worlds (setSize 2 (host 1920 1080)) 2)) = 10
   \<and> max (val (width (worlds (setSize 2 (host 1920 1080)) 2)))
          (val (height (worlds (setSize 2 (host 1920 1080)) 2)))
      / min (val (width (worlds (setSize 2 (host 1920 1080)) 2)))
            (val (height (worlds (setSize 2 (host 1920 1080)) 2)))
      \<noteq> max 1920 1080 / min 1920 1080
   \<and> val (ddiv (width (worlds (setSize 2 (host 1920 1080)) 2))
                (height (worlds (setSize 2 (host 1920 1080)) 2)))
      \<noteq> val (ddiv (innerWidth (window (host 1920 1080)))
                   (innerHeight (window (host 1920 1080))))"
proof -
  have v: "val (dbl 1920) = 1920" "val (dbl 1080) = 1080" by (simp_all add: val_dbl fl_values)
  have q: "val (ddiv (dbl 1920) (dbl 1080)) = 8006399337547548 / 2 ^ 52"
    unfolding val_ops v using fl_eval [of "1920 / 1080" 52 8006399337547548] by simp
  have w: "val (dmul MIN_DIMENSION (ddiv (dbl 1920) (dbl 1080))) = 5003999585967218 / 2 ^ 48"
    unfolding val_ops(3) q val_MIN_DIMENSION
    using fl_eval_tie [of "10 * (8006399337547548 / 2 ^ 52)" 48 5003999585967218] by simp
  have r: "val (ddiv (dmul MIN_DIMENSION (ddiv (dbl 1920) (dbl 1080))) MIN_DIMENSION)
             = 8006399337547549 / 2 ^ 52"
    unfolding val_ops(4) w val_MIN_DIMENSION
    using fl_eval [of "5003999585967218 / 2 ^ 48 / 10" 52 8006399337547549] by simp
  have W: "width (worlds (setSize 2 (host 1920 1080)) 2)
             = dmul MIN_DIMENSION (ddiv (dbl 1920) (dbl 1080))"
    "height (worlds (setSize 2 (host 1920 1080)) 2) = MIN_DIMENSION"
    by (simp_all add: setSize_wide window_host v)
  show ?thesis
    unfolding W window_host window.simps r q w v val_MIN_DIMENSION by simp
qed

text \<open>
  C4, as the code has it. In a viewport of positive width and height, after \<open>setSize\<close>
  the scale is the viewport size divided by the size of the World, axis by axis, and
  \<open>maxScale_\<close> is the component of the scale along the longer side of the viewport,
  not the one along the side of extent \<open>MIN_DIMENSION\<close>, which is the shorter side of
  the viewport divided by \<open>MIN_DIMENSION\<close>. When the viewport is at least 1 wide and
  high, \<open>maxScale_\<close> and both components are a tenth of the shorter side of the viewport
  up to the roundings: each differs from it by at most \<open>2\<^sup>-\<^sup>4\<^sup>9\<close> of it.
\<close>

theorem setSize_scale_of_longer_side:
  assumes "iw = innerWidth (window h)" and "ih = innerHeight (window h)"
    and "w = worlds (setSize this h) this"
    and "0 < val iw" and "0 < val ih"
  shows "scale_' w = (ddiv iw (width w), ddiv ih (height w))
       \<and> (val ih < val iw \<longrightarrow>
            height w = MIN_DIMENSION \<and> maxScale_' w = fst (scale_' w)
            \<and> snd (scale_' w) = ddiv ih MIN_DIMENSION)
       \<and> (val iw \<le> val ih \<longrightarrow>
            width w = MIN_DIMENSION \<and> maxScale_' w = snd (scale_' w)
            \<and> fst (scale_' w) = ddiv iw MIN_DIMENSION)
       \<and> (1 \<le> val iw \<and> 1 \<le> val ih \<longrightarrow>
            \<bar>val (maxScale_' w) - min (val iw) (val ih) / 10\<bar>
              \<le> min (val iw) (val ih) / 10 / 2 ^ 49
            \<and> \<bar>val (fst (scale_' w)) - min (val iw) (val ih) / 10\<bar>
              \<le> min (val iw) (val ih) / 10 / 2 ^ 49
            \<and> \<bar>val (snd (scale_' w)) - min (val iw) (val ih) / 10\<bar>
              \<le> min (val iw) (val ih) / 10 / 2 ^ 49)"
proof (cases "val ih < val iw")
  case True
  then have le: "val ih \<le> val iw" by simp
  have W: "width w = dmul MIN_DIMENSION (ddiv iw ih)" "height w = MIN_DIMENSION"
    "maxScale_' w = ddiv iw (dmul MIN_DIMENSION (ddiv iw ih))"
    "scale_' w = (ddiv iw (dmul MIN_DIMENSION (ddiv iw ih)), ddiv ih MIN_DIMENSION)"
    using True assms(1-3) setSize_wide [of h this] by simp_all
  have "1 \<le> val ih \<Longrightarrow>
        \<bar>val (ddiv iw (dmul MIN_DIMENSION (ddiv iw ih))) - val ih / 10\<bar> \<le> val ih / 10 / 2 ^ 49"
    by (rule long_scale_error [OF _ le])
  moreover have "1 \<le> val ih \<Longrightarrow>
        \<bar>val (ddiv ih MIN_DIMENSION) - val ih / 10\<bar> \<le> val ih / 10 / 2 ^ 49"
    by (rule short_scale_error)
  ultimately show ?thesis
    using True by (simp add: W min_def)
next
  case False
  then have le: "val iw \<le> val ih" by simp
  have W: "width w = MIN_DIMENSION" "height w = dmul MIN_DIMENSION (ddiv ih iw)"
    "maxScale_' w = ddiv ih (dmul MIN_DIMENSION (ddiv ih iw))"
    "scale_' w = (ddiv iw MIN_DIMENSION, ddiv ih (dmul MIN_DIMENSION (ddiv ih iw)))"
    using le assms(1-3) setSize_tall [of h this] by simp_all
  have "1 \<le> val iw \<Longrightarrow>
        \<bar>val (ddiv ih (dmul MIN_DIMENSION (ddiv ih iw))) - val iw / 10\<bar> \<le> val iw / 10 / 2 ^ 49"
    by (rule long_scale_error [OF _ le])
  moreover have "1 \<le> val iw \<Longrightarrow>
        \<bar>val (ddiv iw MIN_DIMENSION) - val iw / 10\<bar> \<le> val iw / 10 / 2 ^ 49"
    by (rule short_scale_error)
  ultimately show ?thesis
    using False le by (simp add: W min_def)
qed

theorem setSize_scale_of_longer_side_witness:
  "0 < val (innerWidth (window (host 800 600)))
   \<and> 0 < val (innerHeight (window (host 800 600)))
   \<and> 1 \<le> val (innerWidth (window (host 800 600)))
   \<and> 1 \<le> val (innerHeight (window (host 800 600)))
   \<and> val (innerHeight (window (host 800 600))) < val (innerWidth (window (host 800 600)))
   \<and> height (worlds (setSize 2 (host 800 600)) 2) = MIN_DIMENSION
   \<and> maxScale_' (worlds (setSize 2 (host 800 600)) 2)
       = fst (scale_' (worlds (setSize 2 (host 800 600)) 2))
   \<and> \<bar>val (maxScale_' (worlds (setSize 2 (host 800 600)) 2)) - 60\<bar> \<le> 60 / 2 ^ 49
   \<and> \<bar>val (snd (scale_' (worlds (setSize 2 (host 800 600)) 2))) - 60\<bar> \<le> 60 / 2 ^ 49
   \<and> 0 < val (innerWidth (window (host 600 800)))
   \<and> 0 < val (innerHeight (window (host 600 800)))
   \<and> val (innerWidth (window (host 600 800))) \<le> val (innerHeight (window (host 600 800)))
   \<and> width (worlds (setSize 2 (host 600 800)) 2) = MIN_DIMENSION
   \<and> maxScale_' (worlds (setSize 2 (host 600 800)) 2)
       = snd (scale_' (worlds (setSize 2 (host 600 800)) 2))"
proof -
  have v: "val (dbl 800) = 800" "val (dbl 600) = 600" by (simp_all add: val_dbl fl_values)
  have p: "0 < val (innerWidth (window (host 800 600)))"
    "0 < val (innerHeight (window (host 800 600)))"
    "1 \<le> val (innerWidth (window (host 800 600)))"
    "1 \<le> val (innerHeight (window (host 800 600)))"
    "val (innerHeight (window (host 800 600))) < val (innerWidth (window (host 800 600)))"
    "min (val (innerWidth (window (host 800 600)))) (val (innerHeight (window (host 800 600))))
       / 10 = 60"
    by (simp_all add: window_host v)
  have p': "0 < val (innerWidth (window (host 600 800)))"
    "0 < val (innerHeight (window (host 600 800)))"
    "val (innerWidth (window (host 600 800))) \<le> val (innerHeight (window (host 600 800)))"
    by (simp_all add: window_host v)
  note T = setSize_scale_of_longer_side [OF refl refl refl p(1,2), of 2]
  note T' = setSize_scale_of_longer_side [OF refl refl refl p'(1,2), of 2]
  have a: "height (worlds (setSize 2 (host 800 600)) 2) = MIN_DIMENSION
       \<and> maxScale_' (worlds (setSize 2 (host 800 600)) 2)
           = fst (scale_' (worlds (setSize 2 (host 800 600)) 2))"
    using T p(5) by blast
  have b: "\<bar>val (maxScale_' (worlds (setSize 2 (host 800 600)) 2)) - 60\<bar> \<le> 60 / 2 ^ 49
       \<and> \<bar>val (snd (scale_' (worlds (setSize 2 (host 800 600)) 2))) - 60\<bar> \<le> 60 / 2 ^ 49"
    using T p(3,4) unfolding p(6) by blast
  have c: "width (worlds (setSize 2 (host 600 800)) 2) = MIN_DIMENSION
       \<and> maxScale_' (worlds (setSize 2 (host 600 800)) 2)
           = snd (scale_' (worlds (setSize 2 (host 600 800)) 2))"
    using T' p'(3) by blast
  show ?thesis using a b c p p' by blast
qed

text \<open>
  C4, as the claim has it, fails: in the viewport of 1536 by 864 the side of the World
  of extent \<open>MIN_DIMENSION\<close> is its height, and the component of the scale along it is
  not \<open>maxScale_\<close> but larger than \<open>maxScale_\<close>, so \<open>maxScale_\<close> is not the larger of the
  two.
\<close>

theorem setSize_maxScale_counterexample:
  "0 < val (innerWidth (window (host 1536 864)))
   \<and> 0 < val (innerHeight (window (host 1536 864)))
   \<and> height (worlds (setSize 2 (host 1536 864)) 2) = MIN_DIMENSION
   \<and> val (width (worlds (setSize 2 (host 1536 864)) 2)) \<noteq> val MIN_DIMENSION
   \<and> val (maxScale_' (worlds (setSize 2 (host 1536 864)) 2)) = 6079859496950169 / 2 ^ 46
   \<and> val (snd (scale_' (worlds (setSize 2 (host 1536 864)) 2))) = 6079859496950170 / 2 ^ 46
   \<and> snd (scale_' (worlds (setSize 2 (host 1536 864)) 2))
       \<noteq> maxScale_' (worlds (setSize 2 (host 1536 864)) 2)
   \<and> val (maxScale_' (worlds (setSize 2 (host 1536 864)) 2))
       < max (val (fst (scale_' (worlds (setSize 2 (host 1536 864)) 2))))
             (val (snd (scale_' (worlds (setSize 2 (host 1536 864)) 2))))"
proof -
  have v: "val (dbl 1536) = 1536" "val (dbl 864) = 864" by (simp_all add: val_dbl fl_values)
  have q: "val (ddiv (dbl 1536) (dbl 864)) = 8006399337547548 / 2 ^ 52"
    unfolding val_ops v using fl_eval [of "1536 / 864" 52 8006399337547548] by simp
  have w: "val (dmul MIN_DIMENSION (ddiv (dbl 1536) (dbl 864))) = 5003999585967218 / 2 ^ 48"
    unfolding val_ops(3) q val_MIN_DIMENSION
    using fl_eval_tie [of "10 * (8006399337547548 / 2 ^ 52)" 48 5003999585967218] by simp
  have m: "val (ddiv (dbl 1536) (dmul MIN_DIMENSION (ddiv (dbl 1536) (dbl 864))))
             = 6079859496950169 / 2 ^ 46"
    unfolding val_ops(4) w v
    using fl_eval [of "1536 / (5003999585967218 / 2 ^ 48)" 46 6079859496950169] by simp
  have s: "val (ddiv (dbl 864) MIN_DIMENSION) = 6079859496950170 / 2 ^ 46"
    unfolding val_ops(4) v val_MIN_DIMENSION
    using fl_eval [of "864 / 10" 46 6079859496950170] by simp
  have W: "worlds (setSize 2 (host 1536 864)) 2 = (worlds (host 1536 864) 2)
             \<lparr>width := dmul MIN_DIMENSION (ddiv (dbl 1536) (dbl 864)),
              height := MIN_DIMENSION,
              scale_' := (ddiv (dbl 1536) (dmul MIN_DIMENSION (ddiv (dbl 1536) (dbl 864))),
                          ddiv (dbl 864) MIN_DIMENSION),
              maxScale_' := ddiv (dbl 1536) (dmul MIN_DIMENSION (ddiv (dbl 1536) (dbl 864)))\<rparr>"
    using setSize_wide [of "host 1536 864" 2] by (simp add: window_host v)
  have ne: "ddiv (dbl 864) MIN_DIMENSION
              \<noteq> ddiv (dbl 1536) (dmul MIN_DIMENSION (ddiv (dbl 1536) (dbl 864)))"
    using m s by auto
  have lt: "val (ddiv (dbl 1536) (dmul MIN_DIMENSION (ddiv (dbl 1536) (dbl 864))))
              < val (ddiv (dbl 864) MIN_DIMENSION)"
    unfolding m s by simp
  have w10: "val (dmul MIN_DIMENSION (ddiv (dbl 1536) (dbl 864))) \<noteq> val MIN_DIMENSION"
    unfolding w val_MIN_DIMENSION by simp
  show ?thesis
    using ne lt w10 m s by (simp add: W window_host v)
qed

text \<open>
  C6, as the code has it. The constructor takes no gravity: whatever arguments it is
  called with, the World it leaves has the zero vector as gravity and no points and no
  constraints, and its width, height, scale and \<open>maxScale_\<close> are those that \<open>setSize\<close>
  gives in the viewport of the host.
\<close>

theorem World_ignores_arguments:
  "gravity (worlds (World this args h) this) = vec2_createFrom (dbl 0) (dbl 0)
   \<and> val (fst (vec2_createFrom (dbl 0) (dbl 0))) = 0
   \<and> val (snd (vec2_createFrom (dbl 0) (dbl 0))) = 0
   \<and> points_' (worlds (World this args h) this) = []
   \<and> constraints_' (worlds (World this args h) this) = []
   \<and> width (worlds (World this args h) this) = width (worlds (setSize this h) this)
   \<and> height (worlds (World this args h) this) = height (worlds (setSize this h) this)
   \<and> scale_' (worlds (World this args h) this) = scale_' (worlds (setSize this h) this)
   \<and> maxScale_' (worlds (World this args h) this) = maxScale_' (worlds (setSize this h) this)"
proof -
  define g where "g = world_upd this (\<lambda>w. w\<lparr>constraints_' := []\<rparr>)
      (world_upd this (\<lambda>w. w\<lparr>points_' := []\<rparr>)
        (world_upd this (\<lambda>w. w\<lparr>gravity := vec2_createFrom (dbl 0) (dbl 0)\<rparr>) h))"
  have W: "World this args h = setSize this g"
    by (simp add: World_def Let_def g_def)
  have win: "window g = window h"
    by (simp add: g_def window_world_upd)
  have fields: "gravity (worlds g this) = vec2_createFrom (dbl 0) (dbl 0)"
    "points_' (worlds g this) = []" "constraints_' (worlds g this) = []"
    by (simp_all add: g_def worlds_world_upd)
  show ?thesis
    unfolding W setSize_gravity setSize_collections fields
    using setSize_dimensions_window [OF win, of this]
    by (simp add: vec2_createFrom_def val_dbl fl_zero)
qed

text \<open>
  C6, as the claim has it, fails: a World constructed with the gravity vector
  \<open>(0, 10)\<close> as argument does not have that vector as its gravity.
\<close>

theorem World_gravity_argument_counterexample:
  "gravity (worlds (World 2 [(dbl 0, dbl 10)] (host 800 600)) 2) \<noteq> (dbl 0, dbl 10)"
proof -
  have "gravity (worlds (World 2 [(dbl 0, dbl 10)] (host 800 600)) 2) = (dbl 0, dbl 0)"
    by (simp add: World_def Let_def setSize_gravity worlds_world_upd vec2_createFrom_def)
  moreover have "dbl 0 \<noteq> dbl 10"
    using dbl_neq [of 0 10] by (simp add: fl_values)
  ultimately show ?thesis by simp
qed

subsection \<open>Conversion to pixels\<close>

text \<open>
  C9. \<open>pointToPixels\<close> returns the position of the point multiplied by the scale of
  the World, coordinate by coordinate, and \<open>valueToPixels\<close> returns the value
  multiplied by \<open>maxScale_\<close>, the products being those of the source: the real
  products rounded.
\<close>

theorem toPixels_exact:
  "pointToPixels this point h =
     (dmul (fst (current (points h point))) (fst (scale_' (worlds h this))),
      dmul (snd (current (points h point))) (snd (scale_' (worlds h this))))
   \<and> valueToPixels this v h = dmul v (maxScale_' (worlds h this))
   \<and> val (fst (pointToPixels this point h))
       = fl (val (fst (current (points h point))) * val (fst (scale_' (worlds h this))))
   \<and> val (snd (pointToPixels this point h))
       = fl (val (snd (current (points h point))) * val (snd (scale_' (worlds h this))))
   \<and> val (valueToPixels this v h) = fl (val v * val (maxScale_' (worlds h this)))"
  by (simp add: pointToPixels_def valueToPixels_def vec2_multiply_def val_ops)

subsection \<open>Interaction\<close>

lemma interact_loop_calls:
  "fst (interact_loop p qs (tr, h))
     = tr @ map (CollidePoints p) (filter (\<lambda>q. p \<noteq> q \<and> interactive (points h q)) qs)"
proof (induction qs arbitrary: tr h)
  case Nil
  then show ?case by simp
next
  case (Cons q qs)
  show ?case
  proof (cases "p \<noteq> q \<and> interactive (points h q)")
    case True
    then show ?thesis
      using Cons.IH [of "tr @ [CollidePoints p q]" "collidePoints_' p q h"]
      by (simp add: interactive_collidePoints)
  next
    case False
    then show ?thesis
      using Cons.IH [of tr h] by auto
  qed
qed

lemma interact_loop_worlds: "worlds (snd (interact_loop p qs (tr, h))) = worlds h"
  by (induction qs arbitrary: tr h) (simp_all add: worlds_collidePoints)

lemma interact_loop_alone:
  assumes "\<forall>q \<in> set qs. q \<noteq> p \<longrightarrow> \<not> interactive (points h q)"
  shows "interact_loop p qs (tr, h) = (tr, h)"
  using assms by (induction qs) auto

lemma fst_interact:
  "fst (interact this p h) = fst (interact_loop p (points_' (worlds h this)) ([], h))"
  by (simp add: interact_def Let_def split: prod.split)

lemma worlds_interact: "worlds (snd (interact this p h)) = worlds h"
proof -
  obtain tr h1 where L: "interact_loop p (points_' (worlds h this)) ([], h) = (tr, h1)"
    by (cases "interact_loop p (points_' (worlds h this)) ([], h)") auto
  have "worlds h1 = worlds h"
    using interact_loop_worlds [of p "points_' (worlds h this)" "[]" h] L by simp
  then show ?thesis
    by (simp add: interact_def L Let_def worlds_point_upd)
qed

text \<open>
  C5, as the code has it. During \<open>interact\<close> of a point \<open>p\<close>, \<open>collidePoints\<close> is called
  on \<open>p\<close> and \<open>q\<close> for exactly the points \<open>q\<close> of the collection of the World, in
  insertion order, that are not \<open>p\<close> itself and are interactive. The flag of \<open>p\<close> is not
  read; when \<open>p\<close> is interactive, both points of every call are.
\<close>

theorem interact_collides_with_interactive_others:
  "fst (interact this p h)
     = map (CollidePoints p)
         (filter (\<lambda>q. p \<noteq> q \<and> interactive (points h q)) (points_' (worlds h this)))
   \<and> (interactive (points h p) \<longrightarrow>
        (\<forall>a b. CollidePoints a b \<in> set (fst (interact this p h)) \<longrightarrow>
           interactive (points h a) \<and> interactive (points h b)))"
  by (auto simp add: fst_interact interact_loop_calls)

theorem interact_collides_with_interactive_others_witness:
  "interactive (points (two_discs (0, 0) True (3 / 2, 0) True) 0)
   \<and> fst (interact 2 0 (two_discs (0, 0) True (3 / 2, 0) True)) = [CollidePoints 0 1]
   \<and> CollidePoints 0 1 \<in> set (fst (interact 2 0 (two_discs (0, 0) True (3 / 2, 0) True)))
   \<and> interactive (points (two_discs (0, 0) True (3 / 2, 0) True) 1)"
proof -
  have i: "interactive (points (two_discs (0, 0) True (3 / 2, 0) True) 0)"
    "interactive (points (two_discs (0, 0) True (3 / 2, 0) True) (Suc 0))"
    by (simp_all add: two_discs_points)
  have t: "fst (interact 2 0 (two_discs (0, 0) True (3 / 2, 0) True)) = [CollidePoints 0 1]"
    using interact_collides_with_interactive_others
      [of 2 0 "two_discs (0, 0) True (3 / 2, 0) True"]
    by (simp add: two_discs_world i)
  show ?thesis
    unfolding t using i by simp
qed

text \<open>
  C5, as the claim has it, fails: \<open>interact\<close> of the point 0, which is not
  interactive, calls \<open>collidePoints\<close> on it and the interactive point 1.
\<close>

theorem interact_noninteractive_counterexample:
  "\<not> interactive (points (two_discs (0, 0) False (3 / 2, 0) True) 0)
   \<and> fst (interact 2 0 (two_discs (0, 0) False (3 / 2, 0) True)) = [CollidePoints 0 1]"
proof -
  have "interactive (points (two_discs (0, 0) False (3 / 2, 0) True) (Suc 0))"
    using two_discs_points(3) [of "(0, 0)" False "(3 / 2, 0)" True] by simp
  then show ?thesis
    by (simp add: fst_interact interact_loop_calls two_discs_world two_discs_points(1))
qed

text \<open>
  C7. A point that lies inside the bounds of the World on both axes, radius
  \<open>\<le>\<close> position \<open>\<le>\<close> extent minus radius, in a World none of whose other points is
  interactive, is left where it is by \<open>interact\<close>; the call changes nothing in the
  store, calls \<open>collidePoints\<close> on nothing, and so does a second call after it.
\<close>

theorem interact_in_bounds_noop:
  assumes "x = fst (current (points h p))" and "y = snd (current (points h p))"
    and "r = radius (points h p)"
    and "val r \<le> val x" and "val x \<le> val (width (worlds h this)) - val r"
    and "val r \<le> val y" and "val y \<le> val (height (worlds h this)) - val r"
    and alone: "\<forall>q \<in> set (points_' (worlds h this)). q \<noteq> p \<longrightarrow> \<not> interactive (points h q)"
  shows "snd (interact this p h) = h
       \<and> current (points (snd (interact this p h)) p) = (x, y)
       \<and> fst (interact this p h) = []
       \<and> interact this p (snd (interact this p h)) = ([], h)"
proof -
  have L: "interact_loop p (points_' (worlds h this)) ([], h) = ([], h)"
    using interact_loop_alone [OF alone] .
  have bx: "\<not> val x > val (dsub (width (worlds h this)) r)"
    using val_le_fl [OF assms(5)] by (simp add: val_ops)
  have by': "\<not> val y > val (dsub (height (worlds h this)) r)"
    using val_le_fl [OF assms(7)] by (simp add: val_ops)
  have "point_upd p (\<lambda>q. q\<lparr>current := (fst (current q), snd (current (points h p)))\<rparr>)
          (point_upd p (\<lambda>q. q\<lparr>current := (fst (current (points h p)), snd (current q))\<rparr>) h) = h"
    by (simp add: point_upd_def)
  then have S: "snd (interact this p h) = h"
    using assms(1-4,6) bx by'
    by (simp add: interact_def L Let_def worlds_point_upd)
  have T: "fst (interact this p h) = []"
    by (simp add: fst_interact L)
  have "interact this p h = ([], h)"
    using S T by (simp add: prod_eq_iff)
  then show ?thesis using assms(1,2) by simp
qed

theorem interact_in_bounds_noop_witness:
  "val (radius (points (two_discs (5, 5) True (11 / 2, 5) False) 0))
     \<le> val (fst (current (points (two_discs (5, 5) True (11 / 2, 5) False) 0)))
   \<and> val (fst (current (points (two_discs (5, 5) True (11 / 2, 5) False) 0)))
     \<le> val (width (worlds (two_discs (5, 5) True (11 / 2, 5) False) 2))
        - val (radius (points (two_discs (5, 5) True (11 / 2, 5) False) 0))
   \<and> val (radius (points (two_discs (5, 5) True (11 / 2, 5) False) 0))
     \<le> val (snd (current (points (two_discs (5, 5) True (11 / 2, 5) False) 0)))
   \<and> val (snd (current (points (two_discs (5, 5) True (11 / 2, 5) False) 0)))
     \<le> val (height (worlds (two_discs (5, 5) True (11 / 2, 5) False) 2))
        - val (radius (points (two_discs (5, 5) True (11 / 2, 5) False) 0))
   \<and> points_' (worlds (two_discs (5, 5) True (11 / 2, 5) False) 2) = [0, 1]
   \<and> \<not> interactive (points (two_discs (5, 5) True (11 / 2, 5) False) 1)
   \<and> snd (interact 2 0 (two_discs (5, 5) True (11 / 2, 5) False))
       = two_discs (5, 5) True (11 / 2, 5) False
   \<and> val (fst (current (points (snd (interact 2 0 (two_discs (5, 5) True (11 / 2, 5) False))) 0)))
       = 5
   \<and> val (snd (current (points (snd (interact 2 0 (two_discs (5, 5) True (11 / 2, 5) False))) 0)))
       = 5"
  using interact_in_bounds_noop [OF refl refl refl,
      of "two_discs (5, 5) True (11 / 2, 5) False" 0 2]
  by (simp add: two_discs_world two_discs_points val_800_600 val_MIN_DIMENSION val_dbl fl_values)

subsection \<open>The step\<close>

declare satisfy_loop.simps [simp del] move_loop.simps [simp del]

lemma satisfy_loop_frame:
  assumes frame: "\<And>c dt g. constraints_' (worlds (satisfy c dt g) this) = constraints_' (worlds g this)"
  shows "i \<le> length cs \<Longrightarrow> constraints_' (worlds h this) = cs \<Longrightarrow>
         satisfy_loop satisfy this i (length cs) (tr, h)
           = Inr (tr @ map (\<lambda>c. Satisfy c DT) (drop i cs),
                  foldl (\<lambda>g c. satisfy c DT g) h (drop i cs))"
proof (induction "length cs - i" arbitrary: i tr h)
  case 0
  then show ?case by (simp add: satisfy_loop.simps)
next
  case (Suc n)
  then have lt: "i < length cs" by simp
  have IH: "satisfy_loop satisfy this (Suc i) (length cs)
              (tr @ [Satisfy (cs ! i) DT], satisfy (cs ! i) DT h)
            = Inr ((tr @ [Satisfy (cs ! i) DT]) @ map (\<lambda>c. Satisfy c DT) (drop (Suc i) cs),
                   foldl (\<lambda>g c. satisfy c DT g) (satisfy (cs ! i) DT h) (drop (Suc i) cs))"
    using Suc.hyps(1) [of "Suc i" "satisfy (cs ! i) DT h" "tr @ [Satisfy (cs ! i) DT]"]
      Suc.hyps(2) lt Suc.prems(2) frame by simp
  have D: "drop i cs = cs ! i # drop (Suc i) cs"
    using lt by (simp add: Cons_nth_drop_Suc)
  show ?case
    using lt Suc.prems(2) IH by (subst satisfy_loop.simps) (simp add: D Let_def)
qed

lemma move_loop_frame:
  assumes frame: "\<And>p dt g. points_' (worlds (move p dt g) this) = points_' (worlds g this)"
  shows "i \<le> length ps \<Longrightarrow> points_' (worlds h this) = ps \<Longrightarrow>
         move_loop move this i (length ps) (tr, h)
           = Inr (tr @ map (\<lambda>p. Move p DT) (drop i ps),
                  foldl (\<lambda>g p. move p DT g) h (drop i ps))"
proof (induction "length ps - i" arbitrary: i tr h)
  case 0
  then show ?case by (simp add: move_loop.simps)
next
  case (Suc n)
  then have lt: "i < length ps" by simp
  have IH: "move_loop move this (Suc i) (length ps)
              (tr @ [Move (ps ! i) DT], move (ps ! i) DT h)
            = Inr ((tr @ [Move (ps ! i) DT]) @ map (\<lambda>p. Move p DT) (drop (Suc i) ps),
                   foldl (\<lambda>g p. move p DT g) (move (ps ! i) DT h) (drop (Suc i) ps))"
    using Suc.hyps(1) [of "Suc i" "move (ps ! i) DT h" "tr @ [Move (ps ! i) DT]"]
      Suc.hyps(2) lt Suc.prems(2) frame by simp
  have D: "drop i ps = ps ! i # drop (Suc i) ps"
    using lt by (simp add: Cons_nth_drop_Suc)
  show ?case
    using lt Suc.prems(2) IH by (subst move_loop.simps) (simp add: D Let_def)
qed

text \<open>
  C2. Let \<open>satisfy\<close> leave the collection of constraints of the World as it is, and
  \<open>move\<close> its collection of points. Then \<open>step\<close> returns, and the calls it made are
  \<open>satisfy\<close> with \<open>DT\<close>, which is 16, on each constraint in insertion order, once each,
  and after all of them \<open>move\<close> with \<open>DT\<close> on each point in insertion order, once each;
  the store it leaves is the one these calls, in this order, leave.
\<close>

theorem step_constraints_then_points:
  assumes sat_frame:
      "\<And>c dt g. constraints_' (worlds (satisfy c dt g) this) = constraints_' (worlds g this)"
    and move_frame:
      "\<And>p dt g. points_' (worlds (move p dt g) this) = points_' (worlds g this)"
    and "cs = constraints_' (worlds h this)"
    and "h1 = foldl (\<lambda>g c. satisfy c DT g) h cs"
    and "ps = points_' (worlds h1 this)"
  shows "step satisfy move this h
           = Inr (map (\<lambda>c. Satisfy c DT) cs @ map (\<lambda>p. Move p DT) ps,
                  foldl (\<lambda>g p. move p DT g) h1 ps)
       \<and> val DT = 16"
proof -
  have cs: "constraints_' (worlds h this) = cs" by (rule assms(3) [symmetric])
  have ps: "points_' (worlds h1 this) = ps" by (rule assms(5) [symmetric])
  have A0: "satisfy_loop satisfy this 0 (length cs) ([], h)
              = Inr ([] @ map (\<lambda>c. Satisfy c DT) (drop 0 cs),
                     foldl (\<lambda>g c. satisfy c DT g) h (drop 0 cs))"
    by (rule satisfy_loop_frame [OF sat_frame le0 cs])
  have A: "satisfy_loop satisfy this 0 (length cs) ([], h)
             = Inr (map (\<lambda>c. Satisfy c DT) cs, h1)"
    unfolding A0 assms(4) by simp
  have B0: "move_loop move this 0 (length ps) (map (\<lambda>c. Satisfy c DT) cs, h1)
             = Inr (map (\<lambda>c. Satisfy c DT) cs @ map (\<lambda>p. Move p DT) (drop 0 ps),
                    foldl (\<lambda>g p. move p DT g) h1 (drop 0 ps))"
    by (rule move_loop_frame [OF move_frame le0 ps])
  show ?thesis
    unfolding step_def cs A using B0 by (simp add: ps DT_def val_dbl fl_values)
qed

lemma pinned_discs_world:
  "constraints_' (worlds pinned_discs 2) = [7]" "points_' (worlds pinned_discs 2) = [0, 1]"
  by (simp_all add: pinned_discs_def addConstraint_def Constraint_double_def Let_def
      worlds_world_upd worlds_config_upd two_discs_world)

theorem step_constraints_then_points_witness:
  "(\<forall>c dt g. constraints_' (worlds (pin_satisfy c dt g) 2) = constraints_' (worlds g 2))
   \<and> (\<forall>p dt g. points_' (worlds (interact_move p dt g) 2) = points_' (worlds g 2))
   \<and> (\<exists>g. step pin_satisfy interact_move 2 pinned_discs
             = Inr ([Satisfy 7 DT, Move 0 DT, Move 1 DT], g))
   \<and> val DT = 16"
proof -
  have f1: "\<And>c dt g. constraints_' (worlds (pin_satisfy c dt g) 2) = constraints_' (worlds g 2)"
    by (simp add: pin_satisfy_def worlds_point_upd)
  have f2: "\<And>p dt g. points_' (worlds (interact_move p dt g) 2) = points_' (worlds g 2)"
    by (simp add: interact_move_def worlds_interact)
  have w: "points_' (worlds (pin_satisfy 7 DT pinned_discs) 2) = [0, 1]"
    by (simp add: pin_satisfy_def worlds_point_upd pinned_discs_world)
  show ?thesis
    using step_constraints_then_points [OF f1 f2 refl refl refl, where h = pinned_discs] f1 f2
    by (simp add: pinned_discs_world w)
qed

subsection \<open>Registration\<close>

text \<open>
  C10. Let the constructor leave the receiving World as it is and the \<open>world\<close>
  property of the options object it is given as it is. Then after \<open>addPoint\<close>, and
  after \<open>addConstraint\<close>, the \<open>world\<close> property of the very options object that was
  passed refers to the receiving World, and the World is what it was but for the new
  object, the one returned, at the end of its collection of points, or of constraints.
\<close>

theorem add_injects_world:
  assumes P_world: "\<And>cfg g. worlds (snd (Point cfg g)) this = worlds g this"
    and P_config: "\<And>cfg g. world (configs (snd (Point cfg g)) cfg) = world (configs g cfg)"
    and C_world: "\<And>cfg g. worlds (snd (Constraint cfg g)) this = worlds g this"
    and C_config: "\<And>cfg g. world (configs (snd (Constraint cfg g)) cfg) = world (configs g cfg)"
  shows "world (configs (snd (addPoint Point this opts h)) opts) = Some this
       \<and> worlds (snd (addPoint Point this opts h)) this
           = (worlds h this)\<lparr>points_' := points_' (worlds h this)
                                            @ [fst (addPoint Point this opts h)]\<rparr>
       \<and> world (configs (snd (addConstraint Constraint this opts h)) opts) = Some this
       \<and> worlds (snd (addConstraint Constraint this opts h)) this
           = (worlds h this)\<lparr>constraints_' := constraints_' (worlds h this)
                                            @ [fst (addConstraint Constraint this opts h)]\<rparr>"
proof -
  define h1 where "h1 = config_upd opts (\<lambda>c. c\<lparr>world := Some this\<rparr>) h"
  have w1: "worlds h1 this = worlds h this" by (simp add: h1_def worlds_config_upd)
  have c1: "world (configs h1 opts) = Some this" by (simp add: h1_def configs_config_upd)
  obtain p h2 where P: "Point opts h1 = (p, h2)" by (cases "Point opts h1") auto
  have Pw: "worlds h2 this = worlds h this" using P_world [of opts h1] P w1 by simp
  have Pc: "world (configs h2 opts) = Some this" using P_config [of opts h1] P c1 by simp
  obtain c h2' where C: "Constraint opts h1 = (c, h2')" by (cases "Constraint opts h1") auto
  have Cw: "worlds h2' this = worlds h this" using C_world [of opts h1] C w1 by simp
  have Cc: "world (configs h2' opts) = Some this" using C_config [of opts h1] C c1 by simp
  have AP: "addPoint Point this opts h
              = (p, world_upd this (\<lambda>w. w\<lparr>points_' := points_' w @ [p]\<rparr>) h2)"
    by (simp add: addPoint_def Let_def h1_def [symmetric] P)
  have AC: "addConstraint Constraint this opts h
              = (c, world_upd this (\<lambda>w. w\<lparr>constraints_' := constraints_' w @ [c]\<rparr>) h2')"
    by (simp add: addConstraint_def Let_def h1_def [symmetric] C)
  show ?thesis
    unfolding AP AC by (simp add: worlds_world_upd configs_world_upd Pw Pc Cw Cc)
qed

theorem add_injects_world_witness:
  "(\<forall>cfg g. worlds (snd (Point_double 5 cfg g)) 2 = worlds g 2)
   \<and> (\<forall>cfg g. world (configs (snd (Point_double 5 cfg g)) cfg) = world (configs g cfg))
   \<and> (\<forall>cfg g. worlds (snd (Constraint_double 7 cfg g)) 2 = worlds g 2)
   \<and> (\<forall>cfg g. world (configs (snd (Constraint_double 7 cfg g)) cfg) = world (configs g cfg))
   \<and> world (configs (host 800 600) 9) = None
   \<and> world (configs (snd (addPoint (Point_double 5) 2 9 (host 800 600))) 9) = Some 2
   \<and> points_' (worlds (snd (addPoint (Point_double 5) 2 9 (host 800 600))) 2) = [5]
   \<and> world (configs (snd (addConstraint (Constraint_double 7) 2 9 (host 800 600))) 9) = Some 2
   \<and> constraints_' (worlds (snd (addConstraint (Constraint_double 7) 2 9 (host 800 600))) 2) = [7]"
proof -
  have f: "fst (addPoint (Point_double 5) 2 9 (host 800 600)) = 5"
    "fst (addConstraint (Constraint_double 7) 2 9 (host 800 600)) = 7"
    by (simp_all add: addPoint_def addConstraint_def Point_double_def Constraint_double_def Let_def)
  have h: "world (configs (host 800 600) 9) = None" "points_' (worlds (host 800 600) 2) = []"
    "constraints_' (worlds (host 800 600) 2) = []"
    by (simp_all add: host_def)
  have d: "\<And>cfg g. worlds (snd (Point_double 5 cfg g)) 2 = worlds g 2"
    "\<And>cfg g. world (configs (snd (Point_double 5 cfg g)) cfg) = world (configs g cfg)"
    "\<And>cfg g. worlds (snd (Constraint_double 7 cfg g)) 2 = worlds g 2"
    "\<And>cfg g. world (configs (snd (Constraint_double 7 cfg g)) cfg) = world (configs g cfg)"
    by (simp_all add: Point_double_def Constraint_double_def point_upd_def)
  show ?thesis
    using add_injects_world [OF d, of 9 "host 800 600"] d
    unfolding f by (simp add: h)
qed

end
